theory Spec2Isabelle
  imports Complex_Main "HOL-Library.Word"
begin

section \<open>Data model of the installer (core/installer.py)\<close>

text \<open>
  \<^verbatim>\<open>class InstallationStep(Enum)\<close>: the ten stage identifiers, with the string
  value of each member.
\<close>

datatype InstallationStep =
    DISK_SETUP
  | STAGE3_DOWNLOAD
  | STAGE3_EXTRACT
  | PORTAGE_SETUP
  | SYSTEM_CONFIG
  | KERNEL_INSTALL
  | KERNEL_CONFIG
  | KERNEL_COMPILE
  | BOOTLOADER_INSTALL
  | FINALIZATION

fun step_value :: "InstallationStep \<Rightarrow> string" where
  "step_value DISK_SETUP = ''disk_setup''"
| "step_value STAGE3_DOWNLOAD = ''stage3_download''"
| "step_value STAGE3_EXTRACT = ''stage3_extract''"
| "step_value PORTAGE_SETUP = ''portage_setup''"
| "step_value SYSTEM_CONFIG = ''system_config''"
| "step_value KERNEL_INSTALL = ''kernel_install''"
| "step_value KERNEL_CONFIG = ''kernel_config''"
| "step_value KERNEL_COMPILE = ''kernel_compile''"
| "step_value BOOTLOADER_INSTALL = ''bootloader_install''"
| "step_value FINALIZATION = ''finalization''"

text \<open>
  \<^verbatim>\<open>@dataclass class StepProgress\<close>. The float \<open>progress\<close> is only ever compared
  with and built from decimal literals, so it is a rational here.
\<close>

record StepProgress =
  step :: InstallationStep
  name :: string
  progress :: rat
  status :: string
  details :: "string option"
  error :: "string option"

text \<open>
  Python exceptions, by what an \<^verbatim>\<open>except Exception\<close> clause catches:
  \<open>Exception msg\<close> is an instance of \<^verbatim>\<open>Exception\<close> (or a subclass) whose \<^verbatim>\<open>str()\<close>
  is \<open>msg\<close>; \<open>BaseException msg\<close> is one that derives from \<^verbatim>\<open>BaseException\<close> only
  (\<^verbatim>\<open>KeyboardInterrupt\<close>, \<^verbatim>\<open>SystemExit\<close>, \<^verbatim>\<open>asyncio.CancelledError\<close>), which such a clause
  lets through.
\<close>

datatype exc = Exception string | BaseException string

text \<open>
  The part of \<^verbatim>\<open>AppConfig\<close> that the orchestrator reads (core/config.py): the dry-run
  flag, \<^verbatim>\<open>disk.target_disk\<close> and \<^verbatim>\<open>mount_point\<close>.
\<close>

record DiskConfig =
  target_disk :: string

record AppConfig =
  dry_run :: bool
  disk :: DiskConfig
  mount_point :: string

text \<open>
  A progress callback is a \<^verbatim>\<open>Callable[[StepProgress], None]\<close> supplied from outside. It
  has a state of its own (type \<open>'s\<close>), which it may change, and it either returns
  (\<open>None\<close>) or raises (\<open>Some e\<close>).
\<close>

type_synonym 's callback = "StepProgress \<Rightarrow> 's \<Rightarrow> exc option \<times> 's"

text \<open>
  What one awaited stage function does, seen from the orchestrator: it calls
  \<^verbatim>\<open>self._report_progress(step, name, p, s)\<close> any number of times (in the source every
  stage reports with these four positional arguments, so \<open>details\<close> and \<open>error\<close> keep
  their default \<^verbatim>\<open>None\<close>), carries on according to whether that call returned or
  raised, and at last returns a boolean or raises. A stage that never returns is not
  a value of this type.
\<close>

datatype stage_run =
    Return bool
  | Raise exc
  | Report InstallationStep string rat string "exc option \<Rightarrow> stage_run"

text \<open>
  \<^verbatim>\<open>class InstallationManager\<close>: the fields \<open>config\<close>, \<open>progress_callback\<close>,
  \<open>current_step\<close> and \<open>steps\<close> of the object. Three more components make its effects on
  the outside visible: \<open>sink\<close> is the state of the registered callback, \<open>emitted\<close>
  lists, in order, the events the callback has been invoked with, and \<open>invoked\<close>
  lists, in order, the stages whose function has been awaited. Calls of the logger
  have no effect on the control flow and are left out.
\<close>

record 's InstallationManager =
  config :: AppConfig
  progress_callback :: "'s callback option"
  current_step :: "InstallationStep option"
  steps :: "(InstallationStep \<times> string \<times> stage_run) list"
  sink :: 's
  emitted :: "StepProgress list"
  invoked :: "InstallationStep list"


text \<open>
  \<^verbatim>\<open>_report_progress\<close>: nothing happens when no callback is set; otherwise the event is
  built and the callback is called with it. The result says whether the call raised.
\<close>

definition report_progress ::
  "'s InstallationManager \<Rightarrow> InstallationStep \<Rightarrow> string \<Rightarrow> rat \<Rightarrow> string \<Rightarrow> string option \<Rightarrow> string option
     \<Rightarrow> exc option \<times> 's InstallationManager" where
  "report_progress m stp nm p stat det err =
     (case progress_callback m of
        None \<Rightarrow> (None, m)
      | Some cb \<Rightarrow>
          (let step_progress = \<lparr>step = stp, name = nm, progress = p, status = stat,
                                 details = det, error = err\<rparr>;
               (r, s') = cb step_progress (sink m)
           in (r, m\<lparr>sink := s', emitted := emitted m @ [step_progress]\<rparr>)))"

text \<open>\<^verbatim>\<open>await func()\<close>: the stage runs, reporting through \<^verbatim>\<open>_report_progress\<close>.\<close>

primrec await_func :: "stage_run \<Rightarrow> 's InstallationManager \<Rightarrow> (exc + bool) \<times> 's InstallationManager" where
  "await_func (Return b) m = (Inr b, m)"
| "await_func (Raise e) m = (Inl e, m)"
| "await_func (Report stp nm p stat k) m =
     (case report_progress m stp nm p stat None None of (r, m') \<Rightarrow> await_func (k r) m')"

text \<open>
  One pass through the body of the \<^verbatim>\<open>for\<close> loop of \<^verbatim>\<open>run_full_installation\<close>. It ends
  in one of three ways: the loop goes on (\<open>Continue\<close>), the function returns
  (\<open>Returned b\<close>), or an exception leaves the body for the outer \<^verbatim>\<open>try\<close>
  (\<open>Propagate e\<close>).
\<close>

datatype ctl = Continue | Returned bool | Propagate exc

text \<open>The inner \<^verbatim>\<open>try\<close> block: \<open>Inl e\<close> is an exception raised inside it.\<close>

definition try_step ::
  "InstallationStep \<Rightarrow> string \<Rightarrow> stage_run \<Rightarrow> 's InstallationManager \<Rightarrow> (exc + ctl) \<times> 's InstallationManager" where
  "try_step stp nm func m =
     (case await_func func (m\<lparr>invoked := invoked m @ [stp]\<rparr>) of
        (Inl e, m1) \<Rightarrow> (Inl e, m1)
      | (Inr success, m1) \<Rightarrow>
          if \<not> success then
            (let error_msg = ''Step failed: '' @ nm in
             case report_progress m1 stp nm 0 ''Failed'' None (Some error_msg) of
               (Some e, m2) \<Rightarrow> (Inl e, m2)
             | (None, m2) \<Rightarrow> (Inr (Returned False), m2))
          else
            (case report_progress m1 stp nm 1 ''Completed'' None None of
               (Some e, m2) \<Rightarrow> (Inl e, m2)
             | (None, m2) \<Rightarrow> (Inr Continue, m2)))"

text \<open>
  The loop body: set \<open>current_step\<close>, report "Starting..." (outside the inner \<^verbatim>\<open>try\<close>),
  run the inner \<^verbatim>\<open>try\<close>, and handle \<^verbatim>\<open>except Exception as e\<close> with the "Error" event.
\<close>

definition run_step ::
  "InstallationStep \<times> string \<times> stage_run \<Rightarrow> 's InstallationManager \<Rightarrow> ctl \<times> 's InstallationManager" where
  "run_step entry m =
     (case entry of (stp, nm, func) \<Rightarrow>
        (let m0 = m\<lparr>current_step := Some stp\<rparr> in
         case report_progress m0 stp nm 0 ''Starting...'' None None of
           (Some e, m1) \<Rightarrow> (Propagate e, m1)
         | (None, m1) \<Rightarrow>
             (case try_step stp nm func m1 of
                (Inr c, m2) \<Rightarrow> (c, m2)
              | (Inl (BaseException x), m2) \<Rightarrow> (Propagate (BaseException x), m2)
              | (Inl (Exception x), m2) \<Rightarrow>
                  (let error_msg = ''Exception in step '' @ nm @ '': '' @ x in
                   case report_progress m2 stp nm 0 ''Error'' None (Some error_msg) of
                     (Some e', m3) \<Rightarrow> (Propagate e', m3)
                   | (None, m3) \<Rightarrow> (Returned False, m3)))))"

text \<open>The \<^verbatim>\<open>for\<close> loop over \<open>self.steps\<close>, and the \<^verbatim>\<open>return True\<close> after it.\<close>

fun run_steps ::
  "(InstallationStep \<times> string \<times> stage_run) list \<Rightarrow> 's InstallationManager \<Rightarrow> (exc + bool) \<times> 's InstallationManager" where
  "run_steps [] m = (Inr True, m)"
| "run_steps (entry # rest) m =
     (case run_step entry m of
        (Continue, m') \<Rightarrow> run_steps rest m'
      | (Returned b, m') \<Rightarrow> (Inr b, m')
      | (Propagate e, m') \<Rightarrow> (Inl e, m'))"

text \<open>
  \<^verbatim>\<open>run_full_installation\<close>: the outer \<^verbatim>\<open>try\<close> turns an \<^verbatim>\<open>Exception\<close> into the result
  \<^verbatim>\<open>False\<close>; anything else propagates to the caller (\<open>Inl\<close>).
\<close>

definition run_full_installation :: "'s InstallationManager \<Rightarrow> (exc + bool) \<times> 's InstallationManager" where
  "run_full_installation m =
     (case run_steps (steps m) m of
        (Inl (Exception x), m') \<Rightarrow> (Inr False, m')
      | (Inl (BaseException x), m') \<Rightarrow> (Inl (BaseException x), m')
      | (Inr b, m') \<Rightarrow> (Inr b, m'))"

definition get_current_step :: "'s InstallationManager \<Rightarrow> InstallationStep option" where
  "get_current_step m = current_step m"

definition get_all_steps :: "'s InstallationManager \<Rightarrow> (InstallationStep \<times> string) list" where
  "get_all_steps m = map (\<lambda>(stp, nm, _). (stp, nm)) (steps m)"

section \<open>The stage methods and the fixed stage list\<close>

text \<open>
  The step managers (\<^verbatim>\<open>..installers.disk\<close>, \<^verbatim>\<open>.stage3\<close>, \<^verbatim>\<open>.portage\<close>, \<^verbatim>\<open>.kernel\<close>,
  \<^verbatim>\<open>.bootloader\<close>, \<^verbatim>\<open>.system\<close>) are not part of the sources at hand, so what their
  operations do in a run is a parameter. An operation that takes a
  \<^verbatim>\<open>progress_callback\<close> calls it with \<open>(p, s)\<close> any number of times and then returns a
  boolean or raises; the four operations of the disk manager take no callback.
\<close>

datatype op_run =
    OpReturn bool
  | OpRaise exc
  | OpCallback rat string "exc option \<Rightarrow> op_run"

record installers =
  create_partition_table :: "exc + bool"
  create_partitions :: "exc + bool"
  format_filesystems :: "exc + bool"
  mount_filesystems :: "exc + bool"
  download_stage3 :: op_run
  extract_stage3 :: op_run
  setup_portage :: op_run
  configure_system :: op_run
  install_sources :: op_run
  configure_kernel :: op_run
  compile_kernel :: op_run
  install_bootloader :: op_run
  finalize_installation :: op_run

text \<open>
  The handler \<^verbatim>\<open>except Exception as e: ...; return False\<close> that closes every stage
  method.
\<close>

fun except_Exception :: "exc \<Rightarrow> stage_run" where
  "except_Exception (Exception x) = Return False"
| "except_Exception (BaseException x) = Raise (BaseException x)"

text \<open>
  The nine stage methods other than \<^verbatim>\<open>run_disk_setup\<close> have one shape:
  \<^verbatim>\<open>try: return await op(progress_callback=lambda p, s: self._report_progress(STEP, NAME, p, s))\<close>
  \<^verbatim>\<open>except Exception as e: ...; return False\<close>.
\<close>

primrec run_delegate :: "InstallationStep \<Rightarrow> string \<Rightarrow> op_run \<Rightarrow> stage_run" where
  "run_delegate stp nm (OpReturn b) = Return b"
| "run_delegate stp nm (OpRaise e) = except_Exception e"
| "run_delegate stp nm (OpCallback p s k) = Report stp nm p s (\<lambda>r. run_delegate stp nm (k r))"

text \<open>One of the four phases of \<^verbatim>\<open>run_disk_setup\<close>: report, then call the disk manager.\<close>

definition disk_phase :: "rat \<Rightarrow> string \<Rightarrow> (exc + bool) \<Rightarrow> stage_run \<Rightarrow> stage_run" where
  "disk_phase p s operation rest =
     Report DISK_SETUP ''Setting up disk partitions'' p s
       (\<lambda>r. case r of
          Some e \<Rightarrow> except_Exception e
        | None \<Rightarrow>
            (case operation of
               Inl e \<Rightarrow> except_Exception e
             | Inr ok \<Rightarrow> if \<not> ok then Return False else rest))"

definition run_disk_setup :: "installers \<Rightarrow> stage_run" where
  "run_disk_setup ins =
     disk_phase (1/10) ''Creating partition table...'' (create_partition_table ins)
       (disk_phase (3/10) ''Creating partitions...'' (create_partitions ins)
         (disk_phase (6/10) ''Formatting filesystems...'' (format_filesystems ins)
           (disk_phase (9/10) ''Mounting filesystems...'' (mount_filesystems ins)
             (Return True))))"

text \<open>\<open>self.steps\<close>, as \<^verbatim>\<open>__init__\<close> builds it.\<close>

definition init_steps :: "installers \<Rightarrow> (InstallationStep \<times> string \<times> stage_run) list" where
  "init_steps ins =
     [(DISK_SETUP, ''Setting up disk partitions'', run_disk_setup ins),
      (STAGE3_DOWNLOAD, ''Downloading Stage3'',
         run_delegate STAGE3_DOWNLOAD ''Downloading Stage3'' (download_stage3 ins)),
      (STAGE3_EXTRACT, ''Extracting Stage3'',
         run_delegate STAGE3_EXTRACT ''Extracting Stage3'' (extract_stage3 ins)),
      (PORTAGE_SETUP, ''Configuring Portage'',
         run_delegate PORTAGE_SETUP ''Configuring Portage'' (setup_portage ins)),
      (SYSTEM_CONFIG, ''System configuration'',
         run_delegate SYSTEM_CONFIG ''System configuration'' (configure_system ins)),
      (KERNEL_INSTALL, ''Installing kernel sources'',
         run_delegate KERNEL_INSTALL ''Installing kernel sources'' (install_sources ins)),
      (KERNEL_CONFIG, ''Configuring kernel'',
         run_delegate KERNEL_CONFIG ''Configuring kernel'' (configure_kernel ins)),
      (KERNEL_COMPILE, ''Compiling kernel'',
         run_delegate KERNEL_COMPILE ''Compiling kernel'' (compile_kernel ins)),
      (BOOTLOADER_INSTALL, ''Installing bootloader'',
         run_delegate BOOTLOADER_INSTALL ''Installing bootloader'' (install_bootloader ins)),
      (FINALIZATION, ''Finalizing installation'',
         run_delegate FINALIZATION ''Finalizing installation'' (finalize_installation ins))]"

text \<open>\<^verbatim>\<open>InstallationManager.__init__\<close>; \<open>s0\<close> is the state of the world outside.\<close>

definition InstallationManager_init :: "AppConfig \<Rightarrow> installers \<Rightarrow> 's \<Rightarrow> 's InstallationManager" where
  "InstallationManager_init cfg ins s0 =
     \<lparr>config = cfg, progress_callback = None, current_step = None, steps = init_steps ins,
      sink = s0, emitted = [], invoked = []\<rparr>"

section \<open>The prerequisite check\<close>

text \<open>
  What \<^verbatim>\<open>validate_prerequisites\<close> asks of the operating system: \<^verbatim>\<open>os.geteuid()\<close>,
  \<^verbatim>\<open>Path.exists()\<close> and \<^verbatim>\<open>Path.iterdir()\<close>. Both calls on a path may raise:
  \<^verbatim>\<open>exists()\<close> answers \<^verbatim>\<open>False\<close> for a missing path but passes on other errors of the
  operating system (\<^verbatim>\<open>PermissionError\<close> below a directory that may not be searched, up
  to Python 3.11), and \<^verbatim>\<open>iterdir()\<close> raises for a path that cannot be listed
  (\<^verbatim>\<open>NotADirectoryError\<close> for a regular file, \<^verbatim>\<open>PermissionError\<close>). The calls of the
  logger are kept here, by level, since a warning is one of the outcomes.
\<close>

record os_env =
  geteuid :: int
  path_exists :: "string \<Rightarrow> exc + bool"
  iterdir :: "string \<Rightarrow> exc + string list"

datatype log_call = LogInfo | LogWarning | LogError

text \<open>
  The last check of \<^verbatim>\<open>validate_prerequisites\<close>:
  \<^verbatim>\<open>if mount_point.exists() and any(mount_point.iterdir()): logger.warning(...)\<close>, then the
  closing \<^verbatim>\<open>logger.info\<close> and \<^verbatim>\<open>return True\<close>. Nothing in the method catches what the two
  calls raise.
\<close>

definition check_mount_point :: "os_env \<Rightarrow> string \<Rightarrow> log_call list \<Rightarrow> (exc + bool) \<times> log_call list" where
  "check_mount_point env mount_pt log0 =
     (case path_exists env mount_pt of
        Inl e \<Rightarrow> (Inl e, log0)
      | Inr found \<Rightarrow>
          if found then
            (case iterdir env mount_pt of
               Inl e \<Rightarrow> (Inl e, log0)
             | Inr entries \<Rightarrow>
                 if entries \<noteq> [] then (Inr True, log0 @ [LogWarning, LogInfo])
                 else (Inr True, log0 @ [LogInfo]))
          else (Inr True, log0 @ [LogInfo]))"

text \<open>
  \<^verbatim>\<open>validate_prerequisites\<close>. In \<^verbatim>\<open>not self.config.dry_run and not target_disk.exists()\<close> the
  disk is looked up only when \<open>dry_run\<close> is off.
\<close>

definition validate_prerequisites :: "'s InstallationManager \<Rightarrow> os_env \<Rightarrow> (exc + bool) \<times> log_call list" where
  "validate_prerequisites m env =
     (let log0 = [LogInfo] in
      if \<not> dry_run (config m) \<and> geteuid env \<noteq> 0 then (Inr False, log0 @ [LogError])
      else
        let target = target_disk (disk (config m));
            mount_pt = mount_point (config m)
        in
          if dry_run (config m) then check_mount_point env mount_pt log0
          else
            (case path_exists env target of
               Inl e \<Rightarrow> (Inl e, log0)
             | Inr found \<Rightarrow>
                 if \<not> found then (Inr False, log0 @ [LogError])
                 else check_mount_point env mount_pt log0))"

section \<open>The wizard navigator (core/app.py)\<close>

text \<open>\<^verbatim>\<open>str()\<close> of a Python integer, for the f-string of the step counter.\<close>

function str_nat :: "nat \<Rightarrow> string" where
  "str_nat n = (if n < 10 then [''0123456789'' ! n] else str_nat (n div 10) @ [''0123456789'' ! (n mod 10)])"
  by pat_completeness auto
termination
  by (relation "measure id") auto

definition str_int :: "int \<Rightarrow> string" where
  "str_int i = (if i < 0 then ''-'' @ str_nat (nat (- i)) else str_nat (nat i))"

text \<open>
  \<^verbatim>\<open>class GentooUIApp\<close>: the reactive fields (the step index is \<open>app_current_step\<close> and
  the step list \<open>app_steps\<close> here, since the manager has fields of the same names) and
  the two widgets the navigation writes to, the progress bar \<^verbatim>\<open>#main-progress\<close> and the
  text \<^verbatim>\<open>#step-counter\<close>. Both widgets are taken to be mounted, so that \<^verbatim>\<open>query_one\<close>
  finds them.
\<close>

record GentooUIApp =
  app_current_step :: int
  total_steps :: int
  installation_active :: bool
  dry_run_mode :: bool
  app_steps :: "(string \<times> string) list"
  main_progress :: int
  step_counter :: string

definition GentooUIApp_init :: "AppConfig \<Rightarrow> GentooUIApp" where
  "GentooUIApp_init cfg =
     \<lparr>app_current_step = 0, total_steps = 7, installation_active = False,
      dry_run_mode = dry_run cfg,
      app_steps =
        [(''Welcome'', ''welcome''),
         (''Disk Setup'', ''disk_setup''),
         (''Stage3'', ''stage3''),
         (''Configuration'', ''configuration''),
         (''Kernel'', ''kernel''),
         (''Bootloader'', ''bootloader''),
         (''Finalization'', ''finalization'')],
      main_progress = 0,
      step_counter = ''Step '' @ str_int (0 + 1) @ ''/'' @ str_int 7\<rparr>"

definition update_step_counter :: "GentooUIApp \<Rightarrow> GentooUIApp" where
  "update_step_counter a =
     a\<lparr>step_counter := ''Step '' @ str_int (app_current_step a + 1) @ ''/'' @ str_int (total_steps a)\<rparr>"

definition advance_step :: "GentooUIApp \<Rightarrow> GentooUIApp" where
  "advance_step a =
     (if app_current_step a < total_steps a - 1 then
        (let a1 = a\<lparr>app_current_step := app_current_step a + 1\<rparr>;
             a2 = a1\<lparr>main_progress := app_current_step a1\<rparr>
         in update_step_counter a2)
      else a)"

definition previous_step :: "GentooUIApp \<Rightarrow> GentooUIApp" where
  "previous_step a =
     (if app_current_step a > 0 then
        (let a1 = a\<lparr>app_current_step := app_current_step a - 1\<rparr>;
             a2 = a1\<lparr>main_progress := app_current_step a1\<rparr>
         in update_step_counter a2)
      else a)"

text \<open>A sequence of navigation calls, applied from left to right.\<close>

datatype nav = Advance | Retreat

fun nav_call :: "nav \<Rightarrow> GentooUIApp \<Rightarrow> GentooUIApp" where
  "nav_call Advance a = advance_step a"
| "nav_call Retreat a = previous_step a"

fun nav_calls :: "nav list \<Rightarrow> GentooUIApp \<Rightarrow> GentooUIApp" where
  "nav_calls [] a = a"
| "nav_calls (c # cs) a = nav_calls cs (nav_call c a)"

section \<open>The command runner (utils/system.py)\<close>

text \<open>
  Exceptions as the two handlers of \<^verbatim>\<open>run_command\<close> tell them apart, each with its
  \<^verbatim>\<open>str()\<close>: \<open>TimeoutError\<close> is an instance of \<^verbatim>\<open>asyncio.TimeoutError\<close>, which from Python
  3.11 on is the builtin \<^verbatim>\<open>TimeoutError\<close> (the class of an \<^verbatim>\<open>OSError\<close> with \<^verbatim>\<open>ETIMEDOUT\<close>);
  \<open>UnboundLocalError v\<close> is what reading the local variable \<open>v\<close> raises while it has no
  value; \<open>OtherException\<close> is any other instance of \<^verbatim>\<open>Exception\<close>; \<open>NotException\<close>
  derives from \<^verbatim>\<open>BaseException\<close> only.
\<close>

datatype run_exc =
    TimeoutError string
  | UnboundLocalError string
  | OtherException string
  | NotException string

fun str_exc :: "run_exc \<Rightarrow> string" where
  "str_exc (TimeoutError x) = x"
| "str_exc (UnboundLocalError v) =
     ''cannot access local variable '' @ [CHR 0x27] @ v @ [CHR 0x27]
       @ '' where it is not associated with a value''"
| "str_exc (OtherException x) = x"
| "str_exc (NotException x) = x"

text \<open>
  What the external process does is a parameter of \<^verbatim>\<open>run_command\<close>:
  \<^verbatim>\<open>create_subprocess_exec\<close> raises or yields a process; the process finishes after
  \<open>duration\<close> seconds (\<open>None\<close>: it never does), and then \<^verbatim>\<open>communicate()\<close> raises
  (\<open>communicate_raises\<close>) or hands over the bytes of the two streams, when output is
  captured. \<^verbatim>\<open>process.kill()\<close> returns or raises (\<open>kill_result\<close>; it raises
  \<^verbatim>\<open>ProcessLookupError\<close> for a process that is gone), and \<^verbatim>\<open>await process.wait()\<close> returns,
  raises or never ends (\<open>wait_result\<close>). Decoding UTF-8 is a parameter too; it raises on
  bytes that are not UTF-8.
\<close>

type_synonym bytes = "8 word list"

record process =
  duration :: "rat option"
  communicate_raises :: "run_exc option"
  returncode :: int
  stdout_bytes :: "bytes option"
  stderr_bytes :: "bytes option"
  kill_result :: "run_exc option"
  wait_result :: "run_exc option option"

datatype proc_action = Kill | Wait

text \<open>\<^verbatim>\<open>process.communicate()\<close>, once the process has finished.\<close>

definition communicate :: "process \<Rightarrow> run_exc + bytes option \<times> bytes option" where
  "communicate p =
     (case communicate_raises p of
        Some e \<Rightarrow> Inl e
      | None \<Rightarrow> Inr (stdout_bytes p, stderr_bytes p))"

text \<open>
  \<^verbatim>\<open>asyncio.wait_for(process.communicate(), timeout=timeout)\<close>: \<open>None\<close> when it never
  returns; it raises \<^verbatim>\<open>asyncio.TimeoutError()\<close> when a timeout is given and the process
  takes longer.
\<close>

definition wait_for_communicate :: "process \<Rightarrow> rat option \<Rightarrow> (run_exc + bytes option \<times> bytes option) option" where
  "wait_for_communicate p timeout =
     (case timeout of
        None \<Rightarrow>
          (case duration p of None \<Rightarrow> None | Some d \<Rightarrow> Some (communicate p))
      | Some t \<Rightarrow>
          (case duration p of
             None \<Rightarrow> Some (Inl (TimeoutError []))
           | Some d \<Rightarrow> if d > t then Some (Inl (TimeoutError [])) else Some (communicate p)))"

text \<open>\<^verbatim>\<open>x.decode('utf-8') if x else ""\<close>\<close>

definition decode_or_empty :: "(bytes \<Rightarrow> run_exc + string) \<Rightarrow> bytes option \<Rightarrow> run_exc + string" where
  "decode_or_empty decode x =
     (case x of None \<Rightarrow> Inr [] | Some b \<Rightarrow> if b = [] then Inr [] else decode b)"

text \<open>
  The first handler, \<^verbatim>\<open>except asyncio.TimeoutError\<close>: \<^verbatim>\<open>process.kill()\<close>,
  \<^verbatim>\<open>await process.wait()\<close>, \<^verbatim>\<open>return -1, "", "Command timed out"\<close>. The local \<^verbatim>\<open>process\<close>
  has a value only once \<^verbatim>\<open>create_subprocess_exec\<close> has returned (\<open>Some p\<close>). What is raised
  inside a handler leaves \<^verbatim>\<open>run_command\<close>: the handlers of a \<^verbatim>\<open>try\<close> do not guard one
  another.
\<close>

definition timeout_handler ::
  "process option \<Rightarrow> ((run_exc + int \<times> string \<times> string) \<times> proc_action list) option" where
  "timeout_handler proc =
     (case proc of
        None \<Rightarrow> Some (Inl (UnboundLocalError ''process''), [])
      | Some p \<Rightarrow>
          (case kill_result p of
             Some e \<Rightarrow> Some (Inl e, [Kill])
           | None \<Rightarrow>
               (case wait_result p of
                  None \<Rightarrow> None
                | Some (Some e) \<Rightarrow> Some (Inl e, [Kill, Wait])
                | Some None \<Rightarrow> Some (Inr (- 1, [], ''Command timed out''), [Kill, Wait]))))"

text \<open>
  The two handlers in their order: \<^verbatim>\<open>except asyncio.TimeoutError\<close> first, then
  \<^verbatim>\<open>except Exception as e: return -1, "", str(e)\<close>; anything else propagates.
\<close>

fun handlers ::
  "process option \<Rightarrow> run_exc \<Rightarrow> ((run_exc + int \<times> string \<times> string) \<times> proc_action list) option" where
  "handlers proc (TimeoutError x) = timeout_handler proc"
| "handlers proc (UnboundLocalError v) = Some (Inr (- 1, [], str_exc (UnboundLocalError v)), [])"
| "handlers proc (OtherException x) = Some (Inr (- 1, [], str_exc (OtherException x)), [])"
| "handlers proc (NotException x) = Some (Inl (NotException x), [])"

text \<open>
  \<^verbatim>\<open>run_command\<close>. The result is \<open>None\<close> when the call never returns; otherwise the
  value returned or the exception raised, with the actions taken on the process.
  \<open>capture_output\<close> decides whether the streams are pipes, that is whether the
  process has bytes to hand over.
\<close>

definition run_command ::
  "(bytes \<Rightarrow> run_exc + string) \<Rightarrow> (run_exc + process) \<Rightarrow> rat option \<Rightarrow> bool
     \<Rightarrow> ((run_exc + int \<times> string \<times> string) \<times> proc_action list) option" where
  "run_command decode launch timeout capture_output =
     (case launch of
        Inl e \<Rightarrow> handlers None e
      | Inr p0 \<Rightarrow>
          (let p = (if capture_output then p0 else p0\<lparr>stdout_bytes := None, stderr_bytes := None\<rparr>) in
           case wait_for_communicate p timeout of
             None \<Rightarrow> None
           | Some (Inl e) \<Rightarrow> handlers (Some p) e
           | Some (Inr (out, err)) \<Rightarrow>
               (case decode_or_empty decode out of
                  Inl e \<Rightarrow> handlers (Some p) e
                | Inr stdout_str \<Rightarrow>
                    (case decode_or_empty decode err of
                       Inl e \<Rightarrow> handlers (Some p) e
                     | Inr stderr_str \<Rightarrow> Some (Inr (returncode p, stdout_str, stderr_str), [])))))"

section \<open>Notions used to state the properties\<close>

text \<open>A callback that returns on every event and in every state of its own.\<close>

definition never_raises :: "'s callback \<Rightarrow> bool" where
  "never_raises cb \<longleftrightarrow> (\<forall>ev s. fst (cb ev s) = None)"

text \<open>A manager whose callback, if one is registered, never raises.\<close>

definition quiet :: "'s InstallationManager \<Rightarrow> bool" where
  "quiet m \<longleftrightarrow> (case progress_callback m of None \<Rightarrow> True | Some cb \<Rightarrow> never_raises cb)"

text \<open>What reaches the callback of a list of reported events: nothing when none is set.\<close>

definition observed :: "'s callback option \<Rightarrow> StepProgress list \<Rightarrow> StepProgress list" where
  "observed cb evs = (case cb of None \<Rightarrow> [] | Some _ \<Rightarrow> evs)"

text \<open>
  What a stage does when each of its reports returns: how it ends (\<open>outcome\<close>) and the
  events it reports on the way (\<open>reports\<close>).
\<close>

primrec outcome :: "stage_run \<Rightarrow> exc + bool" where
  "outcome (Return b) = Inr b"
| "outcome (Raise e) = Inl e"
| "outcome (Report stp nm p stat k) = outcome (k None)"

primrec reports :: "stage_run \<Rightarrow> StepProgress list" where
  "reports (Return b) = []"
| "reports (Raise e) = []"
| "reports (Report stp nm p stat k) =
     \<lparr>step = stp, name = nm, progress = p, status = stat, details = None, error = None\<rparr> # reports (k None)"

text \<open>The four events that \<^verbatim>\<open>run_full_installation\<close> itself reports for a stage.\<close>

definition starting_event :: "InstallationStep \<Rightarrow> string \<Rightarrow> StepProgress" where
  "starting_event stp nm =
     \<lparr>step = stp, name = nm, progress = 0, status = ''Starting...'', details = None, error = None\<rparr>"

definition completed_event :: "InstallationStep \<Rightarrow> string \<Rightarrow> StepProgress" where
  "completed_event stp nm =
     \<lparr>step = stp, name = nm, progress = 1, status = ''Completed'', details = None, error = None\<rparr>"

definition failed_event :: "InstallationStep \<Rightarrow> string \<Rightarrow> StepProgress" where
  "failed_event stp nm =
     \<lparr>step = stp, name = nm, progress = 0, status = ''Failed'', details = None,
      error = Some (''Step failed: '' @ nm)\<rparr>"

definition error_event :: "InstallationStep \<Rightarrow> string \<Rightarrow> string \<Rightarrow> StepProgress" where
  "error_event stp nm x =
     \<lparr>step = stp, name = nm, progress = 0, status = ''Error'', details = None,
      error = Some (''Exception in step '' @ nm @ '': '' @ x)\<rparr>"

text \<open>Two states of the manager with the same configuration, callback and stage list.\<close>

definition same_setup :: "'s InstallationManager \<Rightarrow> 's InstallationManager \<Rightarrow> bool" where
  "same_setup m m' \<longleftrightarrow>
     config m' = config m \<and> progress_callback m' = progress_callback m \<and> steps m' = steps m"

text \<open>
  The run of a stage list when every report returns, written as plain recursion on the
  list: what the loop body decides for one stage, the events of one stage, and for a
  whole list the result, the events, the stages awaited and the stage left in
  \<open>current_step\<close>. The lemmas below show that \<^verbatim>\<open>run_full_installation\<close> computes
  exactly these when its callback never raises.
\<close>

definition stage_ctl :: "stage_run \<Rightarrow> ctl" where
  "stage_ctl func =
     (case outcome func of
        Inr ok \<Rightarrow> if ok then Continue else Returned False
      | Inl (Exception x) \<Rightarrow> Returned False
      | Inl (BaseException x) \<Rightarrow> Propagate (BaseException x))"

definition stage_events :: "InstallationStep \<times> string \<times> stage_run \<Rightarrow> StepProgress list" where
  "stage_events entry =
     (case entry of (stp, nm, func) \<Rightarrow>
        starting_event stp nm # reports func @
          (case outcome func of
             Inr ok \<Rightarrow> if ok then [completed_event stp nm] else [failed_event stp nm]
           | Inl (Exception x) \<Rightarrow> [error_event stp nm x]
           | Inl (BaseException x) \<Rightarrow> []))"

fun run_result :: "(InstallationStep \<times> string \<times> stage_run) list \<Rightarrow> exc + bool" where
  "run_result [] = Inr True"
| "run_result (entry # rest) =
     (case stage_ctl (snd (snd entry)) of
        Continue \<Rightarrow> run_result rest
      | Returned b \<Rightarrow> Inr b
      | Propagate e \<Rightarrow> Inl e)"

fun run_events :: "(InstallationStep \<times> string \<times> stage_run) list \<Rightarrow> StepProgress list" where
  "run_events [] = []"
| "run_events (entry # rest) =
     stage_events entry @ (if stage_ctl (snd (snd entry)) = Continue then run_events rest else [])"

fun run_invoked :: "(InstallationStep \<times> string \<times> stage_run) list \<Rightarrow> InstallationStep list" where
  "run_invoked [] = []"
| "run_invoked (entry # rest) =
     fst entry # (if stage_ctl (snd (snd entry)) = Continue then run_invoked rest else [])"

text \<open>
  The state in which the callback leaves the sink when it is called with a list of
  events, one after the other, whether or not it raises on some of them; with no
  callback the sink is left as it is.
\<close>

definition delivered :: "'s callback option \<Rightarrow> StepProgress list \<Rightarrow> 's \<Rightarrow> 's" where
  "delivered cb evs s = (case cb of None \<Rightarrow> s | Some f \<Rightarrow> foldl (\<lambda>s ev. snd (f ev s)) s evs)"

text \<open>
  From the state \<open>m\<close> to the state \<open>m'\<close> the callback is the same, events have only been
  added to those the callback has been invoked with, and the sink is in the state in
  which the callback leaves it after precisely these events.
\<close>

definition fed :: "'s InstallationManager \<Rightarrow> 's InstallationManager \<Rightarrow> bool" where
  "fed m m' \<longleftrightarrow>
     progress_callback m' = progress_callback m
     \<and> take (length (emitted m)) (emitted m') = emitted m
     \<and> sink m' = delivered (progress_callback m) (drop (length (emitted m)) (emitted m')) (sink m)"

text \<open>A list of events in which every event that carries an error has progress 0.\<close>

definition errors_at_zero :: "StepProgress list \<Rightarrow> bool" where
  "errors_at_zero evs \<longleftrightarrow> (\<forall>ev \<in> set evs. error ev \<noteq> None \<longrightarrow> progress ev = 0)"

section \<open>Sample inputs\<close>

definition sample_config :: AppConfig where
  "sample_config = \<lparr>dry_run = True, disk = \<lparr>target_disk = ''/dev/sda''\<rparr>, mount_point = ''/mnt/gentoo''\<rparr>"

definition sample_installers :: installers where
  "sample_installers =
     \<lparr>create_partition_table = Inr True, create_partitions = Inr True,
      format_filesystems = Inr True, mount_filesystems = Inr True,
      download_stage3 = OpReturn True, extract_stage3 = OpReturn True,
      setup_portage = OpReturn True, configure_system = OpReturn True,
      install_sources = OpReturn True, configure_kernel = OpReturn True,
      compile_kernel = OpReturn True, install_bootloader = OpReturn True,
      finalize_installation = OpReturn True\<rparr>"

text \<open>
  Not root, no target disk, and a mount point that holds one entry; and the same
  with a regular file in the place of the mount point.
\<close>

definition sample_env :: os_env where
  "sample_env =
     \<lparr>geteuid = 1000, path_exists = (\<lambda>p. Inr (p = ''/mnt/gentoo'')),
      iterdir = (\<lambda>p. Inr [''lost+found''])\<rparr>"

definition file_env :: os_env where
  "file_env =
     \<lparr>geteuid = 1000, path_exists = (\<lambda>p. Inr (p = ''/mnt/gentoo'')),
      iterdir = (\<lambda>p. Inl (Exception (''[Errno 20] Not a directory: '/mnt/gentoo'' @ [CHR 0x27])))\<rparr>"

text \<open>A process that runs for ten seconds, and a decoder for ASCII bytes.\<close>

definition sample_process :: process where
  "sample_process =
     \<lparr>duration = Some 10, communicate_raises = None, returncode = 0,
      stdout_bytes = Some [], stderr_bytes = Some [], kill_result = None, wait_result = Some None\<rparr>"

definition sample_decode :: "bytes \<Rightarrow> run_exc + string" where
  "sample_decode b =
     (if list_all (\<lambda>w. w < 128) b then Inr (map (\<lambda>w. char_of (unat w)) b)
      else Inl (OtherException ''invalid start byte''))"

text \<open>A callback that appends each event to a list, and a manager that uses it.\<close>

definition recorder :: "StepProgress list callback" where
  "recorder ev s = (None, s @ [ev])"

definition sample_manager :: "(InstallationStep \<times> string \<times> stage_run) list \<Rightarrow> StepProgress list InstallationManager" where
  "sample_manager xs =
     \<lparr>config = sample_config, progress_callback = Some recorder, current_step = None, steps = xs,
      sink = [], emitted = [], invoked = []\<rparr>"

text \<open>
  Three stage lists: every stage succeeds; the second stage returns \<^verbatim>\<open>False\<close> after one
  report of its own; the second stage raises an \<^verbatim>\<open>Exception\<close>.
\<close>

definition steps_all_ok :: "(InstallationStep \<times> string \<times> stage_run) list" where
  "steps_all_ok =
     [(DISK_SETUP, ''Setting up disk partitions'', Return True),
      (STAGE3_DOWNLOAD, ''Downloading Stage3'', Return True)]"

definition steps_second_fails :: "(InstallationStep \<times> string \<times> stage_run) list" where
  "steps_second_fails =
     [(DISK_SETUP, ''Setting up disk partitions'', Return True),
      (STAGE3_DOWNLOAD, ''Downloading Stage3'',
         Report STAGE3_DOWNLOAD ''Downloading Stage3'' (1/2) ''Downloading...'' (\<lambda>r. Return False)),
      (STAGE3_EXTRACT, ''Extracting Stage3'', Return True)]"

definition steps_second_raises :: "(InstallationStep \<times> string \<times> stage_run) list" where
  "steps_second_raises =
     [(DISK_SETUP, ''Setting up disk partitions'', Return True),
      (STAGE3_DOWNLOAD, ''Downloading Stage3'', Raise (Exception ''connection reset'')),
      (STAGE3_EXTRACT, ''Extracting Stage3'', Return True)]"


text \<open>A manager with no callback, and one whose callback counts the events.\<close>

definition silent_manager :: "(InstallationStep \<times> string \<times> stage_run) list \<Rightarrow> unit InstallationManager" where
  "silent_manager xs =
     \<lparr>config = sample_config, progress_callback = None, current_step = None, steps = xs,
      sink = (), emitted = [], invoked = []\<rparr>"

definition counter :: "nat callback" where
  "counter ev n = (None, Suc n)"

definition counting_manager :: "(InstallationStep \<times> string \<times> stage_run) list \<Rightarrow> nat InstallationManager" where
  "counting_manager xs =
     \<lparr>config = sample_config, progress_callback = Some counter, current_step = None, steps = xs,
      sink = 0, emitted = [], invoked = []\<rparr>"

text \<open>
  A callback that keeps each event like \<open>recorder\<close> and then raises on the events
  with a given status, and a manager that uses it.
\<close>

definition fragile :: "string \<Rightarrow> StepProgress list callback" where
  "fragile st ev s = (if status ev = st then Some (Exception ''sink closed'') else None, s @ [ev])"

definition fragile_manager ::
  "string \<Rightarrow> (InstallationStep \<times> string \<times> stage_run) list \<Rightarrow> StepProgress list InstallationManager" where
  "fragile_manager st xs =
     \<lparr>config = sample_config, progress_callback = Some (fragile st), current_step = None, steps = xs,
      sink = [], emitted = [], invoked = []\<rparr>"


section \<open>The wizard navigator stays in range\<close>

lemma update_step_counter_fields [simp]:
  "app_current_step (update_step_counter a) = app_current_step a"
  "total_steps (update_step_counter a) = total_steps a"
  by (simp_all add: update_step_counter_def)

lemma advance_step_index:
  "app_current_step (advance_step a) =
     (if app_current_step a < total_steps a - 1 then app_current_step a + 1 else app_current_step a)"
  "total_steps (advance_step a) = total_steps a"
  by (simp_all add: advance_step_def Let_def)

lemma previous_step_index:
  "app_current_step (previous_step a) =
     (if app_current_step a > 0 then app_current_step a - 1 else app_current_step a)"
  "total_steps (previous_step a) = total_steps a"
  by (simp_all add: previous_step_def Let_def)

lemma nav_calls_range:
  "0 \<le> app_current_step a \<Longrightarrow> app_current_step a \<le> total_steps a - 1 \<Longrightarrow>
   0 \<le> app_current_step (nav_calls cs a)
   \<and> app_current_step (nav_calls cs a) \<le> total_steps a - 1
   \<and> total_steps (nav_calls cs a) = total_steps a"
proof (induction cs arbitrary: a)
  case Nil
  then show ?case by simp
next
  case (Cons c cs)
  have step: "0 \<le> app_current_step (nav_call c a)
      \<and> app_current_step (nav_call c a) \<le> total_steps (nav_call c a) - 1
      \<and> total_steps (nav_call c a) = total_steps a"
    using Cons.prems by (cases c) (auto simp: advance_step_index previous_step_index)
  from Cons.IH [of "nav_call c a"] step show ?case by simp
qed

text \<open>
  Claim C7. \<^verbatim>\<open>advance_step\<close> at the last index \<open>N - 1\<close> changes nothing (neither the index
  nor the two widgets), \<^verbatim>\<open>previous_step\<close> at index 0 changes nothing, and after any
  sequence of the two calls on a freshly built application the index lies in
  \<open>[0, N - 1]\<close>, where \<open>N = total_steps = 7\<close> never changes.
\<close>

theorem navigator_index_invariant:
  "(app_current_step a = total_steps a - 1 \<longrightarrow> advance_step a = a)
   \<and> (app_current_step a = 0 \<longrightarrow> previous_step a = a)
   \<and> (\<forall>cs. 0 \<le> app_current_step (nav_calls cs (GentooUIApp_init cfg))
          \<and> app_current_step (nav_calls cs (GentooUIApp_init cfg))
               \<le> total_steps (nav_calls cs (GentooUIApp_init cfg)) - 1
          \<and> total_steps (nav_calls cs (GentooUIApp_init cfg)) = 7)"
proof -
  have init: "app_current_step (GentooUIApp_init cfg) = 0" "total_steps (GentooUIApp_init cfg) = 7"
    by (simp_all add: GentooUIApp_init_def)
  have "\<forall>cs. 0 \<le> app_current_step (nav_calls cs (GentooUIApp_init cfg))
          \<and> app_current_step (nav_calls cs (GentooUIApp_init cfg))
               \<le> total_steps (nav_calls cs (GentooUIApp_init cfg)) - 1
          \<and> total_steps (nav_calls cs (GentooUIApp_init cfg)) = 7"
    using nav_calls_range [of "GentooUIApp_init cfg"] init by simp
  moreover have "app_current_step a = total_steps a - 1 \<longrightarrow> advance_step a = a"
    by (simp add: advance_step_def)
  moreover have "app_current_step a = 0 \<longrightarrow> previous_step a = a"
    by (simp add: previous_step_def)
  ultimately show ?thesis by blast
qed

theorem navigator_index_invariant_witness:
  "app_current_step (nav_calls [Advance, Advance, Advance, Advance, Advance, Advance] (GentooUIApp_init sample_config)) = 6
   \<and> advance_step (nav_calls [Advance, Advance, Advance, Advance, Advance, Advance] (GentooUIApp_init sample_config))
       = nav_calls [Advance, Advance, Advance, Advance, Advance, Advance] (GentooUIApp_init sample_config)
   \<and> app_current_step (GentooUIApp_init sample_config) = 0
   \<and> previous_step (GentooUIApp_init sample_config) = GentooUIApp_init sample_config
   \<and> app_current_step (nav_calls [Advance, Retreat, Retreat, Advance] (GentooUIApp_init sample_config)) \<le> 6"
proof -
  let ?a = "nav_calls [Advance, Advance, Advance, Advance, Advance, Advance] (GentooUIApp_init sample_config)"
  have six: "app_current_step ?a = 6" and seven: "total_steps ?a = 7"
    by (simp_all add: advance_step_index GentooUIApp_init_def)
  have zero: "app_current_step (GentooUIApp_init sample_config) = 0"
    by (simp add: GentooUIApp_init_def)
  from navigator_index_invariant [of ?a sample_config] six seven
  have a: "advance_step ?a = ?a" by simp
  note t = navigator_index_invariant [of "GentooUIApp_init sample_config" sample_config]
  from t zero
  have b: "previous_step (GentooUIApp_init sample_config) = GentooUIApp_init sample_config"
    by blast
  from t
  have "app_current_step (nav_calls [Advance, Retreat, Retreat, Advance] (GentooUIApp_init sample_config))
          \<le> total_steps (nav_calls [Advance, Retreat, Retreat, Advance] (GentooUIApp_init sample_config)) - 1
        \<and> total_steps (nav_calls [Advance, Retreat, Retreat, Advance] (GentooUIApp_init sample_config)) = 7"
    by blast
  then have c: "app_current_step (nav_calls [Advance, Retreat, Retreat, Advance] (GentooUIApp_init sample_config)) \<le> 6"
    by linarith
  from six a zero b c show ?thesis by blast
qed

section \<open>The step list of the navigator and the stage list of the orchestrator\<close>

text \<open>
  Claim C9, as stated, fails: the navigator's list and the orchestrator's list differ
  in length, in identifiers and in display names.
\<close>

theorem step_lists_differ:
  "length (app_steps (GentooUIApp_init sample_config))
     \<noteq> length (steps (InstallationManager_init sample_config sample_installers ()))
   \<and> map snd (app_steps (GentooUIApp_init sample_config))
     \<noteq> map (\<lambda>(stp, nm). step_value stp) (get_all_steps (InstallationManager_init sample_config sample_installers ()))
   \<and> map fst (app_steps (GentooUIApp_init sample_config))
     \<noteq> map (\<lambda>(stp, nm). nm) (get_all_steps (InstallationManager_init sample_config sample_installers ()))"
  by (simp add: GentooUIApp_init_def InstallationManager_init_def init_steps_def get_all_steps_def)

text \<open>
  Claim C9, amended. The two lists are fixed and separate. The navigator has seven
  steps, as many as its \<open>total_steps\<close>: welcome, disk_setup, stage3, configuration,
  kernel, bootloader, finalization. The orchestrator has ten stages: disk_setup,
  stage3_download, stage3_extract, portage_setup, system_config, kernel_install,
  kernel_config, kernel_compile, bootloader_install, finalization. The identifiers
  found in both are \<open>disk_setup\<close> and \<open>finalization\<close>, in this order in each list.
\<close>

theorem step_lists_relation:
  "map snd (app_steps (GentooUIApp_init cfg))
     = [''welcome'', ''disk_setup'', ''stage3'', ''configuration'', ''kernel'', ''bootloader'',
        ''finalization'']
   \<and> length (app_steps (GentooUIApp_init cfg)) = 7
   \<and> total_steps (GentooUIApp_init cfg) = int (length (app_steps (GentooUIApp_init cfg)))
   \<and> map (\<lambda>(stp, nm). step_value stp) (get_all_steps (InstallationManager_init cfg ins s0))
     = [''disk_setup'', ''stage3_download'', ''stage3_extract'', ''portage_setup'', ''system_config'',
        ''kernel_install'', ''kernel_config'', ''kernel_compile'', ''bootloader_install'',
        ''finalization'']
   \<and> length (get_all_steps (InstallationManager_init cfg ins s0)) = 10
   \<and> filter (\<lambda>x. x \<in> set (map (\<lambda>(stp, nm). step_value stp) (get_all_steps (InstallationManager_init cfg ins s0))))
        (map snd (app_steps (GentooUIApp_init cfg))) = [''disk_setup'', ''finalization'']
   \<and> filter (\<lambda>x. x \<in> set (map snd (app_steps (GentooUIApp_init cfg))))
        (map (\<lambda>(stp, nm). step_value stp) (get_all_steps (InstallationManager_init cfg ins s0)))
        = [''disk_setup'', ''finalization'']"
  by (simp add: GentooUIApp_init_def InstallationManager_init_def init_steps_def get_all_steps_def)

section \<open>The prerequisite check under dry-run\<close>

text \<open>
  Claim C5, as stated, fails: with \<open>dry_run\<close> set and a regular file in the place of
  the mount point, \<^verbatim>\<open>exists()\<close> is true, \<^verbatim>\<open>iterdir()\<close> raises \<^verbatim>\<open>NotADirectoryError\<close>, and
  \<^verbatim>\<open>validate_prerequisites\<close> raises it instead of returning \<^verbatim>\<open>True\<close>.
\<close>

theorem mount_point_not_a_directory:
  "dry_run (config (sample_manager []))
   \<and> path_exists file_env (mount_point (config (sample_manager []))) = Inr True
   \<and> fst (validate_prerequisites (sample_manager []) file_env)
       = Inl (Exception (''[Errno 20] Not a directory: '/mnt/gentoo'' @ [CHR 0x27]))"
  by (simp add: validate_prerequisites_def check_mount_point_def sample_manager_def sample_config_def
      file_env_def)

text \<open>
  Claim C5, amended. With \<open>dry_run\<close> set, \<^verbatim>\<open>validate_prerequisites\<close> never returns \<^verbatim>\<open>False\<close>,
  whatever the effective user id is and whether or not the target disk exists: it
  returns \<^verbatim>\<open>True\<close> when the mount point does not exist and when it exists and can be
  listed, and it raises what \<^verbatim>\<open>exists()\<close> or \<^verbatim>\<open>iterdir()\<close> raises on the mount point
  otherwise. For every configuration, a mount point that is not empty does not change
  the result (it is the one reached with an empty mount point), and when the result is
  \<^verbatim>\<open>True\<close> the log holds the warning and no error.
\<close>

theorem validate_prerequisites_dry_run:
  "(dry_run (config m) \<longrightarrow> fst (validate_prerequisites m env) \<noteq> Inr False)
   \<and> (dry_run (config m) \<and> path_exists env (mount_point (config m)) = Inr False
        \<longrightarrow> fst (validate_prerequisites m env) = Inr True)
   \<and> (dry_run (config m) \<and> path_exists env (mount_point (config m)) = Inr True
        \<and> iterdir env (mount_point (config m)) = Inr entries
        \<longrightarrow> fst (validate_prerequisites m env) = Inr True)
   \<and> (dry_run (config m) \<and> path_exists env (mount_point (config m)) = Inl ex
        \<longrightarrow> fst (validate_prerequisites m env) = Inl ex)
   \<and> (dry_run (config m) \<and> path_exists env (mount_point (config m)) = Inr True
        \<and> iterdir env (mount_point (config m)) = Inl ex
        \<longrightarrow> fst (validate_prerequisites m env) = Inl ex)
   \<and> (path_exists env (mount_point (config m)) = Inr True
        \<and> iterdir env (mount_point (config m)) = Inr (e # es)
      \<longrightarrow> fst (validate_prerequisites m env)
            = fst (validate_prerequisites m (env\<lparr>iterdir := (iterdir env)(mount_point (config m) := Inr [])\<rparr>))
          \<and> (fst (validate_prerequisites m env) = Inr True
               \<longrightarrow> snd (validate_prerequisites m env) = [LogInfo, LogWarning, LogInfo]))"
  by (auto simp: validate_prerequisites_def check_mount_point_def Let_def split: sum.splits)

theorem validate_prerequisites_dry_run_witness:
  "dry_run (config (sample_manager []))
   \<and> geteuid sample_env \<noteq> 0
   \<and> path_exists sample_env (target_disk (disk (config (sample_manager [])))) = Inr False
   \<and> path_exists sample_env (mount_point (config (sample_manager []))) = Inr True
   \<and> iterdir sample_env (mount_point (config (sample_manager []))) = Inr [''lost+found'']
   \<and> validate_prerequisites (sample_manager []) sample_env = (Inr True, [LogInfo, LogWarning, LogInfo])
   \<and> fst (validate_prerequisites (sample_manager []) (sample_env\<lparr>path_exists := \<lambda>p. Inr False\<rparr>)) = Inr True
   \<and> fst (validate_prerequisites (sample_manager [])
             (sample_env\<lparr>path_exists := \<lambda>p. Inl (Exception ''[Errno 13] Permission denied'')\<rparr>))
       = Inl (Exception ''[Errno 13] Permission denied'')"
proof -
  have h: "dry_run (config (sample_manager []))"
    "path_exists sample_env (mount_point (config (sample_manager []))) = Inr True"
    "iterdir sample_env (mount_point (config (sample_manager []))) = Inr [''lost+found'']"
    by (simp_all add: sample_manager_def sample_config_def sample_env_def)
  have g: "geteuid sample_env \<noteq> 0"
    "path_exists sample_env (target_disk (disk (config (sample_manager [])))) = Inr False"
    by (simp_all add: sample_manager_def sample_config_def sample_env_def)
  from validate_prerequisites_dry_run [of "sample_manager []" sample_env "[''lost+found'']" "Exception []"
      "''lost+found''" "[]"] h
  have "fst (validate_prerequisites (sample_manager []) sample_env) = Inr True"
    and "snd (validate_prerequisites (sample_manager []) sample_env) = [LogInfo, LogWarning, LogInfo]"
    by auto
  then have a: "validate_prerequisites (sample_manager []) sample_env = (Inr True, [LogInfo, LogWarning, LogInfo])"
    by (simp add: prod_eq_iff)
  from validate_prerequisites_dry_run [of "sample_manager []" "sample_env\<lparr>path_exists := \<lambda>p. Inr False\<rparr>"] h(1)
  have b: "fst (validate_prerequisites (sample_manager []) (sample_env\<lparr>path_exists := \<lambda>p. Inr False\<rparr>)) = Inr True"
    by simp
  from validate_prerequisites_dry_run [of "sample_manager []"
      "sample_env\<lparr>path_exists := \<lambda>p. Inl (Exception ''[Errno 13] Permission denied'')\<rparr>"
      "[]" "Exception ''[Errno 13] Permission denied''"] h(1)
  have c: "fst (validate_prerequisites (sample_manager [])
             (sample_env\<lparr>path_exists := \<lambda>p. Inl (Exception ''[Errno 13] Permission denied'')\<rparr>))
       = Inl (Exception ''[Errno 13] Permission denied'')"
    by simp
  from h g a b c show ?thesis by blast
qed

section \<open>The failure shape of the command runner\<close>

text \<open>
  What \<^verbatim>\<open>run_command\<close> does in the failure cases. When a timeout \<open>t\<close> is given and the
  process runs longer (or for ever), it kills the process, waits for it, and, if both
  calls return, returns \<open>-1\<close> with the reason "Command timed out" in the place of the
  error text. When the launch raises an \<^verbatim>\<open>Exception\<close> that is not a \<^verbatim>\<open>TimeoutError\<close>, it
  returns \<open>-1\<close> with the message of the exception. When the launch raises a
  \<^verbatim>\<open>TimeoutError\<close>, the first handler is entered with no process at hand, and an
  \<^verbatim>\<open>UnboundLocalError\<close> leaves \<^verbatim>\<open>run_command\<close>.
\<close>

lemma run_command_failure_shape:
  "(launch = Inr p \<and> (duration p = None \<or> (\<exists>d. duration p = Some d \<and> d > t))
      \<and> kill_result p = None \<and> wait_result p = Some None
      \<longrightarrow> run_command decode launch (Some t) capture_output
            = Some (Inr (- 1, [], ''Command timed out''), [Kill, Wait]))
   \<and> (launch = Inl (OtherException x)
      \<longrightarrow> run_command decode launch timeout capture_output = Some (Inr (- 1, [], x), []))
   \<and> (launch = Inl (TimeoutError x)
      \<longrightarrow> run_command decode launch timeout capture_output
            = Some (Inl (UnboundLocalError ''process''), []))"
  by (auto simp: run_command_def wait_for_communicate_def timeout_handler_def Let_def)

text \<open>
  Claim C4 says that \<^verbatim>\<open>run_command\<close> raises in no failure case and reports any inability
  to launch as \<open>-1\<close> with a message. The code does not do so when the launch fails with
  a \<^verbatim>\<open>TimeoutError\<close> (an \<^verbatim>\<open>OSError\<close> with \<^verbatim>\<open>ETIMEDOUT\<close>, for an executable on a file system
  that does not answer): \<^verbatim>\<open>except asyncio.TimeoutError\<close> catches it, \<^verbatim>\<open>process.kill()\<close>
  finds the local \<^verbatim>\<open>process\<close> without a value, and the caller gets an
  \<^verbatim>\<open>UnboundLocalError\<close> in the place of the triple.
\<close>

theorem launch_timeout_escapes:
  "run_command sample_decode (Inl (TimeoutError ''[Errno 110] Connection timed out'')) None True
     = Some (Inl (UnboundLocalError ''process''), [])"
  by (simp add: run_command_def timeout_handler_def)

section \<open>What a report, a stage and the loop do to the manager\<close>

lemma quiet_update [simp]:
  "quiet (m\<lparr>sink := s\<rparr>) = quiet m"
  "quiet (m\<lparr>emitted := es\<rparr>) = quiet m"
  "quiet (m\<lparr>invoked := i\<rparr>) = quiet m"
  "quiet (m\<lparr>current_step := c\<rparr>) = quiet m"
  by (simp_all add: quiet_def)

lemma same_setup_refl [simp]: "same_setup m m"
  by (simp add: same_setup_def)

lemma same_setup_update [simp]:
  "same_setup m (m'\<lparr>sink := s\<rparr>) = same_setup m m'"
  "same_setup m (m'\<lparr>emitted := es\<rparr>) = same_setup m m'"
  "same_setup m (m'\<lparr>invoked := i\<rparr>) = same_setup m m'"
  "same_setup m (m'\<lparr>current_step := c\<rparr>) = same_setup m m'"
  by (simp_all add: same_setup_def)

lemma same_setup_trans: "same_setup m m1 \<Longrightarrow> same_setup m1 m2 \<Longrightarrow> same_setup m m2"
  by (simp add: same_setup_def)

lemma same_setup_quiet: "same_setup m m' \<Longrightarrow> quiet m' = quiet m"
  by (simp add: same_setup_def quiet_def)

lemma observed_append: "observed cb (xs @ ys) = observed cb xs @ observed cb ys"
  by (simp add: observed_def split: option.splits)

lemma observed_Nil [simp]: "observed cb [] = []"
  by (simp add: observed_def split: option.splits)

lemma observed_Some [simp]: "observed (Some cb) xs = xs"
  by (simp add: observed_def)

text \<open>Whatever the callback does, a report leaves the object's own fields alone.\<close>

lemma report_progress_fields:
  "same_setup m (snd (report_progress m stp nm p stat det err))"
  "current_step (snd (report_progress m stp nm p stat det err)) = current_step m"
  "invoked (snd (report_progress m stp nm p stat det err)) = invoked m"
  by (simp_all add: report_progress_def same_setup_def Let_def split: option.splits prod.splits)

lemma report_progress_emitted:
  "emitted (snd (report_progress m stp nm p stat det err)) =
     emitted m @ observed (progress_callback m)
       [\<lparr>step = stp, name = nm, progress = p, status = stat, details = det, error = err\<rparr>]"
  by (simp add: report_progress_def observed_def Let_def split: option.splits prod.splits)

lemma report_progress_quiet:
  assumes "quiet m"
  shows "fst (report_progress m stp nm p stat det err) = None"
proof (cases "progress_callback m")
  case None
  then show ?thesis by (simp add: report_progress_def)
next
  case (Some cb)
  let ?ev = "\<lparr>step = stp, name = nm, progress = p, status = stat, details = det, error = err\<rparr>"
  from Some assms have "fst (cb ?ev (sink m)) = None"
    by (simp add: quiet_def never_raises_def)
  with Some show ?thesis
    by (cases "cb ?ev (sink m)") (simp add: report_progress_def)
qed

lemma await_func_fields:
  "same_setup m (snd (await_func func m))
   \<and> current_step (snd (await_func func m)) = current_step m
   \<and> invoked (snd (await_func func m)) = invoked m"
proof (induction func arbitrary: m)
  case (Report stp nm p stat k)
  obtain r m1 where rp: "report_progress m stp nm p stat None None = (r, m1)"
    by (cases "report_progress m stp nm p stat None None")
  from report_progress_fields [of m stp nm p stat None None] rp
  have "same_setup m m1" "current_step m1 = current_step m" "invoked m1 = invoked m"
    by simp_all
  moreover have "k r \<in> range k" by simp
  note Report.IH [OF this, of m1]
  ultimately show ?case using rp
    by (auto intro: same_setup_trans)
qed simp_all

lemma await_func_quiet:
  "quiet m \<Longrightarrow>
     fst (await_func func m) = outcome func
     \<and> emitted (snd (await_func func m)) = emitted m @ observed (progress_callback m) (reports func)"
proof (induction func arbitrary: m)
  case (Report stp nm p stat k)
  obtain r m1 where rp: "report_progress m stp nm p stat None None = (r, m1)"
    by (cases "report_progress m stp nm p stat None None")
  from report_progress_quiet [OF Report.prems, of stp nm p stat None None] rp
  have r: "r = None" by simp
  from report_progress_fields(1) [of m stp nm p stat None None] rp
  have ss: "same_setup m m1" by simp
  from report_progress_emitted [of m stp nm p stat None None] rp
  have em: "emitted m1 = emitted m @ observed (progress_callback m)
             [\<lparr>step = stp, name = nm, progress = p, status = stat, details = None, error = None\<rparr>]"
    by simp
  have q1: "quiet m1" using ss Report.prems by (simp add: same_setup_quiet)
  have cb: "progress_callback m1 = progress_callback m" using ss by (simp add: same_setup_def)
  have "k None \<in> range k" by simp
  from Report.IH [OF this q1] r rp em cb show ?case
    by (simp add: observed_def split: option.splits)
qed simp_all


lemma report_progress_eqD:
  "report_progress m stp nm p stat det err = (r, m') \<Longrightarrow>
     same_setup m m' \<and> current_step m' = current_step m \<and> invoked m' = invoked m
     \<and> emitted m' = emitted m @ observed (progress_callback m)
          [\<lparr>step = stp, name = nm, progress = p, status = stat, details = det, error = err\<rparr>]"
  using report_progress_fields [of m stp nm p stat det err]
    report_progress_emitted [of m stp nm p stat det err]
  by simp

lemma report_progress_quiet_eqD:
  "report_progress m stp nm p stat det err = (r, m') \<Longrightarrow> quiet m \<Longrightarrow> r = None"
  using report_progress_quiet [of m stp nm p stat det err] by simp

lemma await_func_eqD:
  "await_func func m = (r, m') \<Longrightarrow>
     same_setup m m' \<and> current_step m' = current_step m \<and> invoked m' = invoked m"
  using await_func_fields [of m func] by simp

lemma await_func_quiet_eqD:
  "await_func func m = (r, m') \<Longrightarrow> quiet m \<Longrightarrow>
     r = outcome func \<and> emitted m' = emitted m @ observed (progress_callback m) (reports func)"
  using await_func_quiet [of m func] by simp

text \<open>The events a stage reports itself never carry an error message.\<close>

lemma await_func_emitted:
  "\<exists>new. emitted (snd (await_func func m)) = emitted m @ new \<and> (\<forall>ev \<in> set new. error ev = None)"
proof (induction func arbitrary: m)
  case (Report stp nm p stat k)
  obtain r m1 where rp: "report_progress m stp nm p stat None None = (r, m1)"
    by (cases "report_progress m stp nm p stat None None")
  let ?ev = "\<lparr>step = stp, name = nm, progress = p, status = stat, details = None, error = None\<rparr>"
  from report_progress_eqD [OF rp]
  have em: "emitted m1 = emitted m @ observed (progress_callback m) [?ev]" by simp
  have "k r \<in> range k" by simp
  from Report.IH [OF this, of m1] obtain new
    where new: "emitted (snd (await_func (k r) m1)) = emitted m1 @ new" "\<forall>ev \<in> set new. error ev = None"
    by blast
  have "\<forall>ev \<in> set (observed (progress_callback m) [?ev] @ new). error ev = None"
    using new(2) by (auto simp: observed_def split: option.splits)
  moreover have "emitted (snd (await_func (Report stp nm p stat k) m))
      = emitted m @ (observed (progress_callback m) [?ev] @ new)"
    using rp em new(1) by simp
  ultimately show ?case by blast
qed simp_all

text \<open>The inner \<^verbatim>\<open>try\<close> and the loop body.\<close>

lemma try_step_fields:
  "same_setup m (snd (try_step stp nm func m))
   \<and> current_step (snd (try_step stp nm func m)) = current_step m
   \<and> fst (try_step stp nm func m) \<noteq> Inr (Returned True)"
  by (auto simp: try_step_def Let_def same_setup_def
      split: prod.splits sum.splits option.splits if_splits
      dest!: report_progress_eqD await_func_eqD)

lemma run_step_fields:
  "same_setup m (snd (run_step (stp, nm, func) m))
   \<and> current_step (snd (run_step (stp, nm, func) m)) = Some stp
   \<and> fst (run_step (stp, nm, func) m) \<noteq> Returned True"
proof -
  obtain r m1 where rp: "report_progress (m\<lparr>current_step := Some stp\<rparr>) stp nm 0 ''Starting...'' None None = (r, m1)"
    by (cases "report_progress (m\<lparr>current_step := Some stp\<rparr>) stp nm 0 ''Starting...'' None None")
  from report_progress_eqD [OF rp]
  have m1: "same_setup m m1" "current_step m1 = Some stp" by (simp_all add: same_setup_def)
  obtain t m2 where ts: "try_step stp nm func m1 = (t, m2)"
    by (cases "try_step stp nm func m1")
  from try_step_fields [of m1 stp nm func] ts m1
  have m2: "same_setup m m2" "current_step m2 = Some stp" "t \<noteq> Inr (Returned True)"
    by (auto intro: same_setup_trans)
  show ?thesis
    using rp ts m1 m2
    by (auto simp: run_step_def Let_def same_setup_def
        split: prod.splits sum.splits option.splits exc.splits
        dest!: report_progress_eqD)
qed


lemma errors_at_zero_simps [simp]:
  "errors_at_zero []"
  "errors_at_zero (xs @ ys) \<longleftrightarrow> errors_at_zero xs \<and> errors_at_zero ys"
  by (auto simp: errors_at_zero_def)

lemma errors_at_zero_observed:
  "error ev \<noteq> None \<longrightarrow> progress ev = 0 \<Longrightarrow> errors_at_zero (observed cb [ev])"
  by (simp add: errors_at_zero_def observed_def split: option.splits)

lemma errors_at_zero_no_error: "\<forall>ev \<in> set evs. error ev = None \<Longrightarrow> errors_at_zero evs"
  by (simp add: errors_at_zero_def)

lemma try_step_quiet:
  assumes q: "quiet m"
  shows "fst (try_step stp nm func m) =
           (case outcome func of Inr ok \<Rightarrow> Inr (if ok then Continue else Returned False) | Inl e \<Rightarrow> Inl e)
         \<and> invoked (snd (try_step stp nm func m)) = invoked m @ [stp]
         \<and> emitted (snd (try_step stp nm func m)) =
             emitted m @ observed (progress_callback m)
               (reports func @
                 (case outcome func of
                    Inr ok \<Rightarrow> if ok then [completed_event stp nm] else [failed_event stp nm]
                  | Inl e \<Rightarrow> []))"
proof -
  let ?m0 = "m\<lparr>invoked := invoked m @ [stp]\<rparr>"
  obtain r m1 where af: "await_func func ?m0 = (r, m1)"
    by (cases "await_func func ?m0")
  have q0: "quiet ?m0" using q by simp
  from await_func_quiet_eqD [OF af q0]
  have r: "r = outcome func"
    and em1: "emitted m1 = emitted m @ observed (progress_callback m) (reports func)"
    by simp_all
  from await_func_eqD [OF af]
  have cb1: "progress_callback m1 = progress_callback m" and inv1: "invoked m1 = invoked m @ [stp]"
    by (simp_all add: same_setup_def)
  have q1: "quiet m1" using q cb1 by (simp add: quiet_def)
  show ?thesis
  proof (cases "outcome func")
    case (Inl e)
    with af r em1 inv1 show ?thesis by (simp add: try_step_def observed_append)
  next
    case (Inr ok)
    show ?thesis
    proof (cases ok)
      case True
      obtain r2 m2 where rp: "report_progress m1 stp nm 1 ''Completed'' None None = (r2, m2)"
        by (cases "report_progress m1 stp nm 1 ''Completed'' None None")
      from report_progress_quiet_eqD [OF rp q1] have r2: "r2 = None" .
      from report_progress_eqD [OF rp] cb1 em1 inv1
      have "invoked m2 = invoked m @ [stp]"
        and "emitted m2 = emitted m @ observed (progress_callback m) (reports func @ [completed_event stp nm])"
        by (simp_all add: observed_append completed_event_def)
      with af r Inr True rp r2 show ?thesis by (simp add: try_step_def)
    next
      case False
      obtain r2 m2 where rp: "report_progress m1 stp nm 0 ''Failed'' None (Some (''Step failed: '' @ nm)) = (r2, m2)"
        by (cases "report_progress m1 stp nm 0 ''Failed'' None (Some (''Step failed: '' @ nm))")
      from report_progress_quiet_eqD [OF rp q1] have r2: "r2 = None" .
      from report_progress_eqD [OF rp] cb1 em1 inv1
      have "invoked m2 = invoked m @ [stp]"
        and "emitted m2 = emitted m @ observed (progress_callback m) (reports func @ [failed_event stp nm])"
        by (simp_all add: observed_append failed_event_def)
      with af r Inr False rp r2 show ?thesis by (simp add: try_step_def)
    qed
  qed
qed

lemma run_step_quiet:
  assumes q: "quiet m"
  shows "fst (run_step (stp, nm, func) m) = stage_ctl func
         \<and> invoked (snd (run_step (stp, nm, func) m)) = invoked m @ [stp]
         \<and> emitted (snd (run_step (stp, nm, func) m)) =
             emitted m @ observed (progress_callback m) (stage_events (stp, nm, func))"
proof -
  let ?m0 = "m\<lparr>current_step := Some stp\<rparr>"
  obtain r m1 where rp: "report_progress ?m0 stp nm 0 ''Starting...'' None None = (r, m1)"
    by (cases "report_progress ?m0 stp nm 0 ''Starting...'' None None")
  have q0: "quiet ?m0" using q by simp
  from report_progress_quiet_eqD [OF rp q0] have r: "r = None" .
  from report_progress_eqD [OF rp]
  have cb1: "progress_callback m1 = progress_callback m" and inv1: "invoked m1 = invoked m"
    and em1: "emitted m1 = emitted m @ observed (progress_callback m) [starting_event stp nm]"
    by (simp_all add: same_setup_def starting_event_def)
  have q1: "quiet m1" using q cb1 by (simp add: quiet_def)
  obtain t m2 where ts: "try_step stp nm func m1 = (t, m2)"
    by (cases "try_step stp nm func m1")
  from try_step_quiet [OF q1, of stp nm func] ts cb1 inv1 em1
  have t: "t = (case outcome func of Inr ok \<Rightarrow> Inr (if ok then Continue else Returned False) | Inl e \<Rightarrow> Inl e)"
    and inv2: "invoked m2 = invoked m @ [stp]"
    and em2: "emitted m2 = emitted m @ observed (progress_callback m)
               (starting_event stp nm # reports func @
                 (case outcome func of
                    Inr ok \<Rightarrow> if ok then [completed_event stp nm] else [failed_event stp nm]
                  | Inl e \<Rightarrow> []))"
    by (simp_all add: observed_def split: option.splits)
  from try_step_fields [of m1 stp nm func] ts cb1
  have cb2: "progress_callback m2 = progress_callback m" by (simp add: same_setup_def)
  have q2: "quiet m2" using q cb2 by (simp add: quiet_def)
  show ?thesis
  proof (cases "outcome func")
    case (Inr ok)
    with rp r ts t inv2 em2 show ?thesis
      by (simp add: run_step_def stage_ctl_def stage_events_def)
  next
    case (Inl e)
    show ?thesis
    proof (cases e)
      case (BaseException x)
      with Inl rp r ts t inv2 em2 show ?thesis
        by (simp add: run_step_def stage_ctl_def stage_events_def)
    next
      case (Exception x)
      obtain r3 m3 where rp3:
        "report_progress m2 stp nm 0 ''Error'' None (Some (''Exception in step '' @ nm @ '': '' @ x)) = (r3, m3)"
        by (cases "report_progress m2 stp nm 0 ''Error'' None (Some (''Exception in step '' @ nm @ '': '' @ x))")
      from report_progress_quiet_eqD [OF rp3 q2] have r3: "r3 = None" .
      from report_progress_eqD [OF rp3] cb2 inv2 em2 Inl Exception
      have "invoked m3 = invoked m @ [stp]"
        and "emitted m3 = emitted m @ observed (progress_callback m)
               (starting_event stp nm # reports func @ [error_event stp nm x])"
        by (simp_all add: observed_def error_event_def split: option.splits)
      with Inl Exception rp r ts t rp3 r3 show ?thesis
        by (simp add: run_step_def stage_ctl_def stage_events_def)
    qed
  qed
qed

lemma try_step_emitted:
  "\<exists>new. emitted (snd (try_step stp nm func m)) = emitted m @ new \<and> errors_at_zero new"
proof -
  let ?m0 = "m\<lparr>invoked := invoked m @ [stp]\<rparr>"
  obtain r m1 where af: "await_func func ?m0 = (r, m1)"
    by (cases "await_func func ?m0")
  from await_func_emitted [of func ?m0] af obtain new1
    where new1: "emitted m1 = emitted m @ new1" "errors_at_zero new1"
    by (auto dest: errors_at_zero_no_error)
  have step: "\<And>p stat err r2 m2. report_progress m1 stp nm p stat None err = (r2, m2) \<Longrightarrow>
      err \<noteq> None \<longrightarrow> p = 0 \<Longrightarrow>
      \<exists>new. emitted m2 = emitted m @ new \<and> errors_at_zero new"
  proof -
    fix p stat err r2 m2
    assume rp: "report_progress m1 stp nm p stat None err = (r2, m2)" and z: "err \<noteq> None \<longrightarrow> p = 0"
    let ?ev = "\<lparr>step = stp, name = nm, progress = p, status = stat, details = None, error = err\<rparr>"
    from report_progress_eqD [OF rp] new1(1)
    have "emitted m2 = emitted m @ (new1 @ observed (progress_callback m1) [?ev])" by simp
    moreover have "errors_at_zero (new1 @ observed (progress_callback m1) [?ev])"
      using new1(2) z by (simp add: errors_at_zero_observed)
    ultimately show "\<exists>new. emitted m2 = emitted m @ new \<and> errors_at_zero new" by blast
  qed
  show ?thesis
  proof (cases r)
    case (Inl e)
    with af new1 show ?thesis by (auto simp: try_step_def)
  next
    case (Inr ok)
    show ?thesis
    proof (cases ok)
      case True
      obtain r2 m2 where rp: "report_progress m1 stp nm 1 ''Completed'' None None = (r2, m2)"
        by (cases "report_progress m1 stp nm 1 ''Completed'' None None")
      from step [OF rp] obtain new where "emitted m2 = emitted m @ new" "errors_at_zero new" by auto
      with af Inr True rp show ?thesis by (cases r2) (auto simp: try_step_def)
    next
      case False
      obtain r2 m2 where rp: "report_progress m1 stp nm 0 ''Failed'' None (Some (''Step failed: '' @ nm)) = (r2, m2)"
        by (cases "report_progress m1 stp nm 0 ''Failed'' None (Some (''Step failed: '' @ nm))")
      from step [OF rp] obtain new where "emitted m2 = emitted m @ new" "errors_at_zero new" by auto
      with af Inr False rp show ?thesis by (cases r2) (auto simp: try_step_def)
    qed
  qed
qed

lemma run_step_emitted:
  "\<exists>new. emitted (snd (run_step (stp, nm, func) m)) = emitted m @ new \<and> errors_at_zero new"
proof -
  let ?m0 = "m\<lparr>current_step := Some stp\<rparr>"
  obtain r m1 where rp: "report_progress ?m0 stp nm 0 ''Starting...'' None None = (r, m1)"
    by (cases "report_progress ?m0 stp nm 0 ''Starting...'' None None")
  let ?ev = "\<lparr>step = stp, name = nm, progress = 0, status = ''Starting...'', details = None, error = None\<rparr>"
  from report_progress_eqD [OF rp]
  have em1: "emitted m1 = emitted m @ observed (progress_callback m) [?ev]" by simp
  have z1: "errors_at_zero (observed (progress_callback m) [?ev])"
    by (simp add: errors_at_zero_observed)
  show ?thesis
  proof (cases r)
    case (Some e)
    with rp em1 z1 show ?thesis by (auto simp: run_step_def)
  next
    case None
    obtain t m2 where ts: "try_step stp nm func m1 = (t, m2)"
      by (cases "try_step stp nm func m1")
    from try_step_emitted [of stp nm func m1] ts obtain new2
      where new2: "emitted m2 = emitted m1 @ new2" "errors_at_zero new2" by auto
    have em2: "emitted m2 = emitted m @ (observed (progress_callback m) [?ev] @ new2)"
      using em1 new2(1) by simp
    have z2: "errors_at_zero (observed (progress_callback m) [?ev] @ new2)"
      using z1 new2(2) by simp
    show ?thesis
    proof (cases t)
      case (Inr c)
      with None rp ts em2 z2 show ?thesis by (auto simp: run_step_def)
    next
      case (Inl e)
      show ?thesis
      proof (cases e)
        case (BaseException x)
        with Inl None rp ts em2 z2 show ?thesis by (auto simp: run_step_def)
      next
        case (Exception x)
        obtain r3 m3 where rp3:
          "report_progress m2 stp nm 0 ''Error'' None (Some (''Exception in step '' @ nm @ '': '' @ x)) = (r3, m3)"
          by (cases "report_progress m2 stp nm 0 ''Error'' None (Some (''Exception in step '' @ nm @ '': '' @ x))")
        let ?ev3 = "\<lparr>step = stp, name = nm, progress = 0, status = ''Error'', details = None,
                     error = Some (''Exception in step '' @ nm @ '': '' @ x)\<rparr>"
        from report_progress_eqD [OF rp3] em2
        have em3: "emitted m3 = emitted m @ ((observed (progress_callback m) [?ev] @ new2)
                     @ observed (progress_callback m2) [?ev3])" by simp
        have z3: "errors_at_zero ((observed (progress_callback m) [?ev] @ new2)
                     @ observed (progress_callback m2) [?ev3])"
          using z2 by (simp add: errors_at_zero_observed)
        from Inl Exception None rp ts rp3 em3 z3 show ?thesis
          by (cases r3) (auto simp: run_step_def)
      qed
    qed
  qed
qed


text \<open>The loop.\<close>

lemma run_steps_quiet:
  "quiet m \<Longrightarrow>
     fst (run_steps xs m) = run_result xs
     \<and> invoked (snd (run_steps xs m)) = invoked m @ run_invoked xs
     \<and> emitted (snd (run_steps xs m)) = emitted m @ observed (progress_callback m) (run_events xs)"
proof (induction xs arbitrary: m)
  case Nil
  then show ?case by simp
next
  case (Cons entry rest)
  obtain stp nm func where entry: "entry = (stp, nm, func)" by (cases entry)
  obtain c m1 where rs: "run_step (stp, nm, func) m = (c, m1)"
    by (cases "run_step (stp, nm, func) m")
  from run_step_quiet [OF Cons.prems, of stp nm func] rs
  have c: "c = stage_ctl func" and inv1: "invoked m1 = invoked m @ [stp]"
    and em1: "emitted m1 = emitted m @ observed (progress_callback m) (stage_events (stp, nm, func))"
    by simp_all
  from run_step_fields [of m stp nm func] rs
  have cb1: "progress_callback m1 = progress_callback m" by (simp add: same_setup_def)
  have q1: "quiet m1" using Cons.prems cb1 by (simp add: quiet_def)
  show ?case
  proof (cases "stage_ctl func")
    case Continue
    with Cons.IH [OF q1] entry rs c inv1 em1 cb1 show ?thesis
      by (simp add: observed_append)
  next
    case (Returned b)
    with entry rs c inv1 em1 show ?thesis by simp
  next
    case (Propagate e)
    with entry rs c inv1 em1 show ?thesis by simp
  qed
qed

lemma run_steps_fields:
  "same_setup m (snd (run_steps xs m))
   \<and> (xs = [] \<longrightarrow> current_step (snd (run_steps xs m)) = current_step m)
   \<and> (xs \<noteq> [] \<longrightarrow> (\<exists>entry \<in> set xs. current_step (snd (run_steps xs m)) = Some (fst entry)))
   \<and> (xs \<noteq> [] \<and> fst (run_steps xs m) = Inr True
        \<longrightarrow> current_step (snd (run_steps xs m)) = Some (fst (last xs)))"
proof (induction xs arbitrary: m)
  case Nil
  then show ?case by simp
next
  case (Cons entry rest)
  obtain stp nm func where entry: "entry = (stp, nm, func)" by (cases entry)
  obtain c m1 where rs: "run_step (stp, nm, func) m = (c, m1)"
    by (cases "run_step (stp, nm, func) m")
  from run_step_fields [of m stp nm func] rs
  have ss1: "same_setup m m1" and cs1: "current_step m1 = Some stp" and c: "c \<noteq> Returned True"
    by simp_all
  show ?case
  proof (cases c)
    case Continue
    from Cons.IH [of m1] ss1 cs1 entry rs Continue show ?thesis
      by (cases "rest = []") (auto intro: same_setup_trans)
  next
    case (Returned b)
    with c have "b = False" by simp
    with Returned entry rs ss1 cs1 show ?thesis by simp
  next
    case (Propagate e)
    with entry rs ss1 cs1 show ?thesis by simp
  qed
qed

lemma run_steps_emitted:
  "\<exists>new. emitted (snd (run_steps xs m)) = emitted m @ new \<and> errors_at_zero new"
proof (induction xs arbitrary: m)
  case Nil
  then show ?case by simp
next
  case (Cons entry rest)
  obtain stp nm func where entry: "entry = (stp, nm, func)" by (cases entry)
  obtain c m1 where rs: "run_step (stp, nm, func) m = (c, m1)"
    by (cases "run_step (stp, nm, func) m")
  from run_step_emitted [of stp nm func m] rs obtain new1
    where new1: "emitted m1 = emitted m @ new1" "errors_at_zero new1" by auto
  show ?case
  proof (cases c)
    case Continue
    from Cons.IH [of m1] obtain new2
      where new2: "emitted (snd (run_steps rest m1)) = emitted m1 @ new2" "errors_at_zero new2" by blast
    have "emitted (snd (run_steps (entry # rest) m)) = emitted m @ (new1 @ new2)"
      using entry rs Continue new1(1) new2(1) by simp
    moreover have "errors_at_zero (new1 @ new2)" using new1(2) new2(2) by simp
    ultimately show ?thesis by blast
  next
    case (Returned b)
    with entry rs new1 show ?thesis by auto
  next
    case (Propagate e)
    with entry rs new1 show ?thesis by auto
  qed
qed

text \<open>\<^verbatim>\<open>run_full_installation\<close> in terms of its loop.\<close>

lemma run_full_installation_snd: "snd (run_full_installation m) = snd (run_steps (steps m) m)"
  by (simp add: run_full_installation_def split: prod.splits sum.splits exc.splits)

lemma run_full_installation_fst:
  "fst (run_full_installation m) =
     (case fst (run_steps (steps m) m) of
        Inl (Exception x) \<Rightarrow> Inr False
      | Inl (BaseException x) \<Rightarrow> Inl (BaseException x)
      | Inr b \<Rightarrow> Inr b)"
  by (simp add: run_full_installation_def split: prod.splits sum.splits exc.splits)

text \<open>The run of a list whose first stages all succeed.\<close>

lemma stage_ctl_ok: "outcome func = Inr True \<Longrightarrow> stage_ctl func = Continue"
  by (simp add: stage_ctl_def)

lemma run_prefix_ok:
  "\<forall>entry \<in> set pre. outcome (snd (snd entry)) = Inr True \<Longrightarrow>
     run_result (pre @ rest) = run_result rest
     \<and> run_invoked (pre @ rest) = map fst pre @ run_invoked rest
     \<and> run_events (pre @ rest) =
         concat (map (\<lambda>(stp, nm, func). starting_event stp nm # reports func @ [completed_event stp nm]) pre)
           @ run_events rest"
  by (induction pre) (auto simp: stage_ctl_ok stage_events_def)

lemma run_result_not_Exception: "run_result xs \<noteq> Inl (Exception x)"
  by (induction xs) (auto simp: stage_ctl_def split: sum.splits exc.splits if_splits)

lemma reports_no_error: "\<forall>ev \<in> set (reports func). error ev = None"
proof (induction func)
  case (Report stp nm p stat k)
  have "k None \<in> range k" by simp
  from Report.IH [OF this] show ?case by simp
qed simp_all

lemma butlast_run_events: "\<forall>ev \<in> set (butlast (run_events xs)). error ev = None"
proof (induction xs)
  case Nil
  then show ?case by simp
next
  case (Cons entry rest)
  obtain stp nm func where entry: "entry = (stp, nm, func)" by (cases entry)
  have rep: "\<forall>ev \<in> set (reports func). error ev = None"
    by (rule reports_no_error)
  have st: "error (starting_event stp nm) = None" "error (completed_event stp nm) = None"
    by (simp_all add: starting_event_def completed_event_def)
  show ?case
  proof (cases "stage_ctl func = Continue")
    case True
    then have ok: "outcome func = Inr True"
      by (auto simp: stage_ctl_def split: sum.splits exc.splits if_splits)
    have "\<forall>ev \<in> set (stage_events entry). error ev = None"
      using rep st ok entry by (simp add: stage_events_def)
    with Cons.IH True entry show ?thesis
      by (auto simp: butlast_append dest: in_set_butlastD)
  next
    case False
    have "\<forall>ev \<in> set (butlast (stage_events entry)). error ev = None"
      using rep st entry
      by (auto simp: stage_events_def butlast_append split: sum.splits exc.splits if_splits
          dest: in_set_butlastD)
    with False entry show ?thesis by simp
  qed
qed

lemma run_steps_current_quiet:
  "quiet m \<Longrightarrow> xs \<noteq> [] \<Longrightarrow> current_step (snd (run_steps xs m)) = Some (last (run_invoked xs))"
proof (induction xs arbitrary: m)
  case Nil
  then show ?case by simp
next
  case (Cons entry rest)
  obtain stp nm func where entry: "entry = (stp, nm, func)" by (cases entry)
  obtain c m1 where rs: "run_step (stp, nm, func) m = (c, m1)"
    by (cases "run_step (stp, nm, func) m")
  from run_step_quiet [OF Cons.prems(1), of stp nm func] rs
  have c: "c = stage_ctl func" by simp
  from run_step_fields [of m stp nm func] rs
  have cb1: "progress_callback m1 = progress_callback m" and cs1: "current_step m1 = Some stp"
    by (simp_all add: same_setup_def)
  have q1: "quiet m1" using Cons.prems(1) cb1 by (simp add: quiet_def)
  show ?case
  proof (cases "stage_ctl func")
    case Continue
    show ?thesis
    proof (cases "rest = []")
      case True
      with entry rs c Continue cs1 show ?thesis by simp
    next
      case False
      then have "run_invoked rest \<noteq> []" by (cases rest) simp_all
      with Cons.IH [OF q1 False] entry rs c Continue show ?thesis by simp
    qed
  next
    case (Returned b)
    with entry rs c cs1 show ?thesis by simp
  next
    case (Propagate e)
    with entry rs c cs1 show ?thesis by simp
  qed
qed

lemma run_full_installation_quiet:
  assumes "quiet m"
  shows "fst (run_full_installation m) = run_result (steps m)"
    and "invoked (snd (run_full_installation m)) = invoked m @ run_invoked (steps m)"
    and "emitted (snd (run_full_installation m)) =
           emitted m @ observed (progress_callback m) (run_events (steps m))"
proof -
  note r = run_steps_quiet [OF assms, of "steps m"]
  show "fst (run_full_installation m) = run_result (steps m)"
    using r run_result_not_Exception [of "steps m"]
    by (auto simp: run_full_installation_fst split: sum.splits exc.splits)
  show "invoked (snd (run_full_installation m)) = invoked m @ run_invoked (steps m)"
    using r by (simp add: run_full_installation_snd)
  show "emitted (snd (run_full_installation m)) =
           emitted m @ observed (progress_callback m) (run_events (steps m))"
    using r by (simp add: run_full_installation_snd)
qed

lemma quiet_Some: "progress_callback m = Some cb \<Longrightarrow> never_raises cb \<Longrightarrow> quiet m"
  by (simp add: quiet_def)


subsection \<open>What reaches the callback\<close>

lemma delivered_Nil [simp]: "delivered cb [] s = s"
  by (simp add: delivered_def split: option.splits)

lemma delivered_append: "delivered cb (xs @ ys) s = delivered cb ys (delivered cb xs s)"
  by (simp add: delivered_def split: option.splits)

lemma delivered_observed [simp]: "delivered cb (observed cb evs) s = delivered cb evs s"
  by (simp add: delivered_def observed_def split: option.splits)

lemma fedI:
  "progress_callback m' = progress_callback m \<Longrightarrow> emitted m' = emitted m @ new \<Longrightarrow>
     sink m' = delivered (progress_callback m) new (sink m) \<Longrightarrow> fed m m'"
  by (simp add: fed_def)

lemma fedD:
  assumes "fed m m'"
  shows "progress_callback m' = progress_callback m
     \<and> (\<exists>new. emitted m' = emitted m @ new \<and> sink m' = delivered (progress_callback m) new (sink m))"
proof -
  let ?new = "drop (length (emitted m)) (emitted m')"
  from assms have "emitted m' = emitted m @ ?new"
    by (metis append_take_drop_id fed_def)
  with assms show ?thesis by (auto simp: fed_def)
qed

lemma fed_refl [simp]: "fed m m"
  by (simp add: fed_def)

lemma fed_trans:
  assumes "fed m m1" and "fed m1 m2"
  shows "fed m m2"
proof -
  from fedD [OF assms(1)] obtain n1 where
    a: "progress_callback m1 = progress_callback m" "emitted m1 = emitted m @ n1"
       "sink m1 = delivered (progress_callback m) n1 (sink m)" by blast
  from fedD [OF assms(2)] obtain n2 where
    b: "progress_callback m2 = progress_callback m1" "emitted m2 = emitted m1 @ n2"
       "sink m2 = delivered (progress_callback m1) n2 (sink m1)" by blast
  show ?thesis
    by (rule fedI [where new = "n1 @ n2"]) (simp_all add: a b delivered_append)
qed

lemma fed_update [simp]:
  "fed (m\<lparr>invoked := i\<rparr>) m' = fed m m'"
  "fed (m\<lparr>current_step := c\<rparr>) m' = fed m m'"
  by (simp_all add: fed_def)

lemma report_progress_fed: "fed m (snd (report_progress m stp nm p stat det err))"
proof (cases "progress_callback m")
  case None
  then show ?thesis by (simp add: report_progress_def)
next
  case (Some cb)
  let ?ev = "\<lparr>step = stp, name = nm, progress = p, status = stat, details = det, error = err\<rparr>"
  obtain r s' where "cb ?ev (sink m) = (r, s')" by (cases "cb ?ev (sink m)")
  with Some show ?thesis by (simp add: report_progress_def fed_def delivered_def)
qed

lemma await_func_fed: "fed m (snd (await_func func m))"
proof (induction func arbitrary: m)
  case (Report stp nm p stat k)
  obtain r m1 where rp: "report_progress m stp nm p stat None None = (r, m1)"
    by (cases "report_progress m stp nm p stat None None")
  from report_progress_fed [of m stp nm p stat None None] rp have f1: "fed m m1" by simp
  have "k r \<in> range k" by simp
  from Report.IH [OF this, of m1] have "fed m1 (snd (await_func (k r) m1))" .
  with f1 rp show ?case by (auto intro: fed_trans)
qed simp_all

lemma try_step_fed: "fed m (snd (try_step stp nm func m))"
proof -
  let ?m0 = "m\<lparr>invoked := invoked m @ [stp]\<rparr>"
  obtain r m1 where af: "await_func func ?m0 = (r, m1)"
    by (cases "await_func func ?m0")
  from await_func_fed [of ?m0 func] af have f1: "fed m m1" by simp
  have step: "\<And>p stat err. fed m (snd (report_progress m1 stp nm p stat None err))"
    using f1 report_progress_fed fed_trans by blast
  show ?thesis
    using af f1 step [of 0 "''Failed''" "Some (''Step failed: '' @ nm)"] step [of 1 "''Completed''" None]
    by (auto simp: try_step_def Let_def split: sum.splits prod.splits option.splits if_splits)
qed

lemma run_step_fed: "fed m (snd (run_step (stp, nm, func) m))"
proof -
  let ?m0 = "m\<lparr>current_step := Some stp\<rparr>"
  obtain r m1 where rp: "report_progress ?m0 stp nm 0 ''Starting...'' None None = (r, m1)"
    by (cases "report_progress ?m0 stp nm 0 ''Starting...'' None None")
  from report_progress_fed [of ?m0 stp nm 0 "''Starting...''" None None] rp have f1: "fed m m1" by simp
  obtain t m2 where ts: "try_step stp nm func m1 = (t, m2)"
    by (cases "try_step stp nm func m1")
  from try_step_fed [of m1 stp nm func] ts f1 have f2: "fed m m2" by (auto intro: fed_trans)
  have step: "\<And>err r3 m3. report_progress m2 stp nm 0 ''Error'' None err = (r3, m3) \<Longrightarrow> fed m m3"
  proof -
    fix err r3 m3
    assume "report_progress m2 stp nm 0 ''Error'' None err = (r3, m3)"
    with report_progress_fed [of m2 stp nm 0 "''Error''" None err] have "fed m2 m3" by simp
    with f2 show "fed m m3" by (rule fed_trans)
  qed
  show ?thesis
    using rp ts f1 f2
    by (auto simp: run_step_def Let_def split: sum.splits prod.splits option.splits exc.splits
        dest: step)
qed

lemma run_steps_fed: "fed m (snd (run_steps xs m))"
proof (induction xs arbitrary: m)
  case Nil
  then show ?case by simp
next
  case (Cons entry rest)
  obtain stp nm func where entry: "entry = (stp, nm, func)" by (cases entry)
  obtain c m1 where rs: "run_step (stp, nm, func) m = (c, m1)"
    by (cases "run_step (stp, nm, func) m")
  from run_step_fed [of m stp nm func] rs have f1: "fed m m1" by simp
  from Cons.IH [of m1] f1 have "fed m (snd (run_steps rest m1))" by (rule fed_trans [rotated])
  with f1 rs entry show ?case
    by (auto split: ctl.splits)
qed

lemma run_full_installation_sink:
  assumes "emitted (snd (run_full_installation m)) = emitted m @ new"
  shows "sink (snd (run_full_installation m)) = delivered (progress_callback m) new (sink m)"
proof -
  from fedD [OF run_steps_fed [of m "steps m"]] obtain n where
    n: "emitted (snd (run_steps (steps m) m)) = emitted m @ n"
       "sink (snd (run_steps (steps m) m)) = delivered (progress_callback m) n (sink m)"
    by blast
  from n(1) assms have "n = new" by (simp add: run_full_installation_snd)
  with n(2) show ?thesis by (simp add: run_full_installation_snd)
qed

lemma run_full_installation_sink_quiet:
  assumes "quiet m"
  shows "sink (snd (run_full_installation m)) =
           delivered (progress_callback m) (run_events (steps m)) (sink m)"
  using run_full_installation_sink [OF run_full_installation_quiet(3) [OF assms]] by simp

section \<open>Runs of the orchestrator\<close>

text \<open>
  Claim C2, as stated, fails. In a run of two stages that both return \<^verbatim>\<open>True\<close>, a
  manager with no callback returns \<^verbatim>\<open>True\<close> and emits no event at all; and a callback
  that raises on the "Completed" event makes the run return \<^verbatim>\<open>False\<close> after the first
  stage.
\<close>

theorem all_success_not_enough:
  "length steps_all_ok = 2
   \<and> outcome (snd (snd (steps_all_ok ! 0))) = Inr True
   \<and> outcome (snd (snd (steps_all_ok ! 1))) = Inr True
   \<and> fst (run_full_installation (silent_manager steps_all_ok)) = Inr True
   \<and> emitted (snd (run_full_installation (silent_manager steps_all_ok))) = []
   \<and> fst (run_full_installation (fragile_manager ''Completed'' steps_all_ok)) = Inr False
   \<and> sink (snd (run_full_installation (fragile_manager ''Completed'' steps_all_ok))) =
       [starting_event DISK_SETUP ''Setting up disk partitions'',
        completed_event DISK_SETUP ''Setting up disk partitions'',
        error_event DISK_SETUP ''Setting up disk partitions'' ''sink closed'']
   \<and> invoked (snd (run_full_installation (fragile_manager ''Completed'' steps_all_ok))) = [DISK_SETUP]"
  by (simp add: run_full_installation_def run_step_def try_step_def report_progress_def Let_def
      steps_all_ok_def silent_manager_def fragile_manager_def fragile_def
      starting_event_def completed_event_def error_event_def)

text \<open>
  Claim C2, amended. When the stage list is empty, \<^verbatim>\<open>run_full_installation\<close> returns \<^verbatim>\<open>True\<close>
  and nothing changes: no event is emitted. When every stage returns \<^verbatim>\<open>True\<close> and the
  callback never raises or none is registered, it returns \<^verbatim>\<open>True\<close> and every stage is
  awaited once and in order. A registered callback is then called with, stage after
  stage in the order of the list, the "Starting..." event, the stage's own reports and
  the "Completed" event at progress 1, and with nothing else: one "Completed" event
  for each of the \<open>N\<close> stages, each after the one "Starting..." event of its stage. With
  no callback no event is emitted.
\<close>

theorem all_success_run:
  "(steps m = [] \<longrightarrow> run_full_installation m = (Inr True, m))
   \<and> (quiet m \<and> (\<forall>entry \<in> set (steps m). outcome (snd (snd entry)) = Inr True)
      \<longrightarrow> fst (run_full_installation m) = Inr True
          \<and> invoked (snd (run_full_installation m)) = invoked m @ map fst (steps m)
          \<and> emitted (snd (run_full_installation m)) =
              emitted m @ observed (progress_callback m)
                (concat (map (\<lambda>(stp, nm, func). starting_event stp nm # reports func @ [completed_event stp nm])
                          (steps m)))
          \<and> sink (snd (run_full_installation m)) =
              delivered (progress_callback m)
                (concat (map (\<lambda>(stp, nm, func). starting_event stp nm # reports func @ [completed_event stp nm])
                          (steps m)))
                (sink m))"
proof (intro conjI impI)
  assume "steps m = []"
  then show "run_full_installation m = (Inr True, m)"
    by (simp add: run_full_installation_def)
next
  assume h: "quiet m \<and> (\<forall>entry \<in> set (steps m). outcome (snd (snd entry)) = Inr True)"
  then have q: "quiet m" by simp
  from h have ok: "\<forall>entry \<in> set (steps m). outcome (snd (snd entry)) = Inr True" by simp
  note p = run_prefix_ok [OF ok, of "[]"]
  note r = run_full_installation_quiet [OF q]
  show "fst (run_full_installation m) = Inr True" using r(1) p by simp
  show "invoked (snd (run_full_installation m)) = invoked m @ map fst (steps m)"
    using r(2) p by simp
  show "emitted (snd (run_full_installation m)) =
              emitted m @ observed (progress_callback m)
                (concat (map (\<lambda>(stp, nm, func). starting_event stp nm # reports func @ [completed_event stp nm])
                          (steps m)))"
    using r(3) p by simp
  show "sink (snd (run_full_installation m)) =
              delivered (progress_callback m)
                (concat (map (\<lambda>(stp, nm, func). starting_event stp nm # reports func @ [completed_event stp nm])
                          (steps m)))
                (sink m)"
    using run_full_installation_sink_quiet [OF q] p by simp
qed

theorem all_success_run_witness:
  "quiet (sample_manager steps_all_ok) \<and> quiet (silent_manager steps_all_ok)
   \<and> run_full_installation (sample_manager []) = (Inr True, sample_manager [])
   \<and> fst (run_full_installation (sample_manager steps_all_ok)) = Inr True
   \<and> invoked (snd (run_full_installation (sample_manager steps_all_ok))) = [DISK_SETUP, STAGE3_DOWNLOAD]
   \<and> sink (snd (run_full_installation (sample_manager steps_all_ok))) =
       [starting_event DISK_SETUP ''Setting up disk partitions'',
        completed_event DISK_SETUP ''Setting up disk partitions'',
        starting_event STAGE3_DOWNLOAD ''Downloading Stage3'',
        completed_event STAGE3_DOWNLOAD ''Downloading Stage3'']
   \<and> fst (run_full_installation (silent_manager steps_all_ok)) = Inr True
   \<and> invoked (snd (run_full_installation (silent_manager steps_all_ok))) = [DISK_SETUP, STAGE3_DOWNLOAD]
   \<and> emitted (snd (run_full_installation (silent_manager steps_all_ok))) = []"
proof -
  have q: "quiet (sample_manager steps_all_ok)" "quiet (silent_manager steps_all_ok)"
    by (simp_all add: quiet_def sample_manager_def silent_manager_def never_raises_def recorder_def)
  have e: "steps (sample_manager []) = []" by (simp add: sample_manager_def)
  have h: "\<forall>entry \<in> set (steps (sample_manager steps_all_ok)). outcome (snd (snd entry)) = Inr True"
    "\<forall>entry \<in> set (steps (silent_manager steps_all_ok)). outcome (snd (snd entry)) = Inr True"
    by (simp_all add: sample_manager_def silent_manager_def steps_all_ok_def)
  from all_success_run [of "sample_manager []"] e
  have a: "run_full_installation (sample_manager []) = (Inr True, sample_manager [])" by simp
  from all_success_run [of "sample_manager steps_all_ok"] q(1) h(1)
  have "fst (run_full_installation (sample_manager steps_all_ok)) = Inr True
      \<and> invoked (snd (run_full_installation (sample_manager steps_all_ok))) =
          invoked (sample_manager steps_all_ok) @ map fst (steps (sample_manager steps_all_ok))
      \<and> sink (snd (run_full_installation (sample_manager steps_all_ok))) =
          delivered (progress_callback (sample_manager steps_all_ok))
            (concat (map (\<lambda>(stp, nm, func). starting_event stp nm # reports func @ [completed_event stp nm])
                      (steps (sample_manager steps_all_ok))))
            (sink (sample_manager steps_all_ok))"
    by blast
  then have b: "fst (run_full_installation (sample_manager steps_all_ok)) = Inr True
   \<and> invoked (snd (run_full_installation (sample_manager steps_all_ok))) = [DISK_SETUP, STAGE3_DOWNLOAD]
   \<and> sink (snd (run_full_installation (sample_manager steps_all_ok))) =
       [starting_event DISK_SETUP ''Setting up disk partitions'',
        completed_event DISK_SETUP ''Setting up disk partitions'',
        starting_event STAGE3_DOWNLOAD ''Downloading Stage3'',
        completed_event STAGE3_DOWNLOAD ''Downloading Stage3'']"
    by (simp add: sample_manager_def steps_all_ok_def delivered_def recorder_def)
  from all_success_run [of "silent_manager steps_all_ok"] q(2) h(2)
  have "fst (run_full_installation (silent_manager steps_all_ok)) = Inr True
      \<and> invoked (snd (run_full_installation (silent_manager steps_all_ok))) =
          invoked (silent_manager steps_all_ok) @ map fst (steps (silent_manager steps_all_ok))
      \<and> emitted (snd (run_full_installation (silent_manager steps_all_ok))) =
          emitted (silent_manager steps_all_ok) @ observed (progress_callback (silent_manager steps_all_ok))
            (concat (map (\<lambda>(stp, nm, func). starting_event stp nm # reports func @ [completed_event stp nm])
                      (steps (silent_manager steps_all_ok))))"
    by blast
  then have c: "fst (run_full_installation (silent_manager steps_all_ok)) = Inr True
   \<and> invoked (snd (run_full_installation (silent_manager steps_all_ok))) = [DISK_SETUP, STAGE3_DOWNLOAD]
   \<and> emitted (snd (run_full_installation (silent_manager steps_all_ok))) = []"
    by (simp add: silent_manager_def steps_all_ok_def observed_def)
  from q a b c show ?thesis by blast
qed




section \<open>Exceptions raised by a stage\<close>




section \<open>The current stage\<close>

text \<open>
  What \<^verbatim>\<open>get_current_step\<close> returns in general. It returns \<^verbatim>\<open>None\<close> on a freshly built
  manager. The loop body sets the current stage before the stage is started, and
  nothing resets it: after \<^verbatim>\<open>run_full_installation\<close> has returned, \<^verbatim>\<open>get_current_step\<close>
  returns what it returned before when the stage list is empty, and otherwise a stage
  of the list: the last stage when the run returned \<^verbatim>\<open>True\<close>, and, when the callback
  never raises, the stage that was awaited last.
\<close>

lemma current_step_after_run:
  "get_current_step (InstallationManager_init cfg ins s0) = None
   \<and> get_current_step (snd (run_step (stp, nm, func) m)) = Some stp
   \<and> (steps m = [] \<longrightarrow> get_current_step (snd (run_full_installation m)) = get_current_step m)
   \<and> (steps m \<noteq> [] \<longrightarrow>
        (\<exists>entry \<in> set (steps m). get_current_step (snd (run_full_installation m)) = Some (fst entry)))
   \<and> (steps m \<noteq> [] \<and> fst (run_full_installation m) = Inr True \<longrightarrow>
        get_current_step (snd (run_full_installation m)) = Some (fst (last (steps m))))
   \<and> (steps m \<noteq> [] \<and> quiet m \<longrightarrow>
        get_current_step (snd (run_full_installation m))
          = Some (last (invoked (snd (run_full_installation m)))))"
proof (intro conjI impI)
  show "get_current_step (InstallationManager_init cfg ins s0) = None"
    by (simp add: get_current_step_def InstallationManager_init_def)
  show "get_current_step (snd (run_step (stp, nm, func) m)) = Some stp"
    using run_step_fields [of m stp nm func] by (simp add: get_current_step_def)
  note f = run_steps_fields [of m "steps m"]
  {
    assume "steps m = []"
    with f show "get_current_step (snd (run_full_installation m)) = get_current_step m"
      by (simp add: get_current_step_def run_full_installation_snd)
  }
  {
    assume "steps m \<noteq> []"
    with f show "\<exists>entry \<in> set (steps m). get_current_step (snd (run_full_installation m)) = Some (fst entry)"
      by (simp add: get_current_step_def run_full_installation_snd)
  }
  {
    assume a: "steps m \<noteq> [] \<and> fst (run_full_installation m) = Inr True"
    then have "fst (run_steps (steps m) m) = Inr True"
      by (auto simp: run_full_installation_fst split: sum.splits exc.splits)
    with a f show "get_current_step (snd (run_full_installation m)) = Some (fst (last (steps m)))"
      by (simp add: get_current_step_def run_full_installation_snd)
  }
  {
    assume a: "steps m \<noteq> [] \<and> quiet m"
    then have ne: "run_invoked (steps m) \<noteq> []" by (cases "steps m") simp_all
    from a run_steps_current_quiet [of m "steps m"] run_full_installation_quiet(2) [of m] ne
    show "get_current_step (snd (run_full_installation m))
          = Some (last (invoked (snd (run_full_installation m))))"
      by (simp add: get_current_step_def run_full_installation_snd)
  }
qed

text \<open>
  Claim C6 says that \<^verbatim>\<open>get_current_step\<close> returns \<^verbatim>\<open>None\<close> whenever no stage is running,
  also after \<^verbatim>\<open>run_full_installation\<close> has returned; the method is documented as "Get
  the currently running step". The code does not do so: after a run of the fixed stage
  list in which every stage succeeds, when no stage is running any more,
  \<^verbatim>\<open>get_current_step\<close> still returns the last stage.
\<close>

theorem current_step_not_reset:
  "fst (run_full_installation (InstallationManager_init sample_config sample_installers ())) = Inr True
   \<and> get_current_step (snd (run_full_installation (InstallationManager_init sample_config sample_installers ())))
       = Some FINALIZATION"
  by (simp add: run_full_installation_def get_current_step_def InstallationManager_init_def
      init_steps_def run_disk_setup_def disk_phase_def sample_installers_def
      run_step_def try_step_def report_progress_def Let_def)

section \<open>Events that carry an error\<close>

lemma butlast_observed:
  "\<forall>ev \<in> set (butlast evs). error ev = None \<Longrightarrow> \<forall>ev \<in> set (butlast (observed cb evs)). error ev = None"
  by (simp add: observed_def split: option.splits)

text \<open>
  Claim C8, as stated, fails. The second stage returns \<^verbatim>\<open>False\<close> and the callback raises
  on the "Failed" event: the handler of the loop body catches that and reports "Error"
  for the same stage, so that the "Failed" event, which carries an error message, is
  not the last event of its stage.
\<close>

theorem failed_event_not_last:
  "sink (snd (run_full_installation (fragile_manager ''Failed'' steps_second_fails))) =
       [starting_event DISK_SETUP ''Setting up disk partitions'',
        completed_event DISK_SETUP ''Setting up disk partitions'',
        starting_event STAGE3_DOWNLOAD ''Downloading Stage3'',
        \<lparr>step = STAGE3_DOWNLOAD, name = ''Downloading Stage3'', progress = 1/2,
         status = ''Downloading...'', details = None, error = None\<rparr>,
        failed_event STAGE3_DOWNLOAD ''Downloading Stage3'',
        error_event STAGE3_DOWNLOAD ''Downloading Stage3'' ''sink closed'']
   \<and> error (failed_event STAGE3_DOWNLOAD ''Downloading Stage3'') = Some ''Step failed: Downloading Stage3''
   \<and> step (error_event STAGE3_DOWNLOAD ''Downloading Stage3'' ''sink closed'') = STAGE3_DOWNLOAD"
  by (simp add: run_full_installation_def run_step_def try_step_def report_progress_def Let_def
      steps_second_fails_def fragile_manager_def fragile_def
      starting_event_def completed_event_def failed_event_def error_event_def)

text \<open>
  Claim C8, amended. The events that the callback is called with in a run of
  \<^verbatim>\<open>run_full_installation\<close> are such that each one that carries an error message has
  progress 0, whatever the stages and the callback do. When the callback never raises,
  such an event is the last event of the run, hence the last event of its stage: every
  event before the last one carries no error.
\<close>

theorem error_events_terminal:
  "\<exists>new. emitted (snd (run_full_installation m)) = emitted m @ new
      \<and> sink (snd (run_full_installation m)) = delivered (progress_callback m) new (sink m)
      \<and> (\<forall>ev \<in> set new. error ev \<noteq> None \<longrightarrow> progress ev = 0)
      \<and> (quiet m \<longrightarrow> (\<forall>ev \<in> set (butlast new). error ev = None))"
proof -
  from run_steps_emitted [of "steps m" m] obtain new
    where new: "emitted (snd (run_steps (steps m) m)) = emitted m @ new" "errors_at_zero new"
    by blast
  have em: "emitted (snd (run_full_installation m)) = emitted m @ new"
    using new(1) by (simp add: run_full_installation_snd)
  note sk = run_full_installation_sink [OF em]
  have "quiet m \<longrightarrow> (\<forall>ev \<in> set (butlast new). error ev = None)"
  proof
    assume q: "quiet m"
    from run_steps_quiet [OF q, of "steps m"] new(1)
    have "new = observed (progress_callback m) (run_events (steps m))" by simp
    with butlast_observed [OF butlast_run_events, of "progress_callback m" "steps m"]
    show "\<forall>ev \<in> set (butlast new). error ev = None" by simp
  qed
  with em sk new(2) show ?thesis
    by (auto simp: errors_at_zero_def)
qed

theorem error_events_terminal_witness:
  "quiet (sample_manager steps_second_raises)
   \<and> sink (snd (run_full_installation (sample_manager steps_second_raises))) =
       [starting_event DISK_SETUP ''Setting up disk partitions'',
        completed_event DISK_SETUP ''Setting up disk partitions'',
        starting_event STAGE3_DOWNLOAD ''Downloading Stage3'',
        error_event STAGE3_DOWNLOAD ''Downloading Stage3'' ''connection reset'']
   \<and> error (error_event STAGE3_DOWNLOAD ''Downloading Stage3'' ''connection reset'') \<noteq> None
   \<and> progress (error_event STAGE3_DOWNLOAD ''Downloading Stage3'' ''connection reset'') = 0
   \<and> error (starting_event STAGE3_DOWNLOAD ''Downloading Stage3'') = None"
proof -
  let ?m = "sample_manager steps_second_raises"
  let ?evs = "[starting_event DISK_SETUP ''Setting up disk partitions'',
        completed_event DISK_SETUP ''Setting up disk partitions'',
        starting_event STAGE3_DOWNLOAD ''Downloading Stage3'',
        error_event STAGE3_DOWNLOAD ''Downloading Stage3'' ''connection reset'']"
  have q: "quiet ?m"
    by (simp add: quiet_def sample_manager_def never_raises_def recorder_def)
  have em: "emitted (snd (run_full_installation ?m)) = ?evs"
    using run_full_installation_quiet(3) [OF q]
    by (simp add: sample_manager_def steps_second_raises_def stage_ctl_def stage_events_def)
  have e0: "emitted ?m = []" "sink ?m = []" "progress_callback ?m = Some recorder"
    by (simp_all add: sample_manager_def)
  from error_events_terminal [of ?m] obtain new
    where new: "emitted (snd (run_full_installation ?m)) = emitted ?m @ new"
      "sink (snd (run_full_installation ?m)) = delivered (progress_callback ?m) new (sink ?m)"
      "\<forall>ev \<in> set new. error ev \<noteq> None \<longrightarrow> progress ev = 0"
      "quiet ?m \<longrightarrow> (\<forall>ev \<in> set (butlast new). error ev = None)"
    by blast
  from new(1) em e0 have n: "new = ?evs" by simp
  from new(2) n e0 have sk: "sink (snd (run_full_installation ?m)) = ?evs"
    by (simp add: delivered_def recorder_def)
  have err: "error (error_event STAGE3_DOWNLOAD ''Downloading Stage3'' ''connection reset'') \<noteq> None"
    by (simp add: error_event_def)
  from new(3) n err
  have p: "progress (error_event STAGE3_DOWNLOAD ''Downloading Stage3'' ''connection reset'') = 0"
    by simp
  from new(4) q n
  have s: "error (starting_event STAGE3_DOWNLOAD ''Downloading Stage3'') = None"
    by simp
  from q sk err p s show ?thesis by blast
qed

section \<open>The callback does not steer the run\<close>

text \<open>
  Claim C10. Take two managers with the same stage list, each with a callback that
  never raises or with none (their callbacks may differ in everything else, also in
  the type of their state). Then \<^verbatim>\<open>run_full_installation\<close> gives the same result on
  both and awaits the same stages in the same order; it leaves the same current stage
  if it found the same one; and when both have a callback, both callbacks receive the
  same events.
\<close>

theorem progress_sink_noninterference:
  "quiet m1 \<and> quiet m2 \<and> steps m1 = steps m2
   \<longrightarrow> fst (run_full_installation m1) = fst (run_full_installation m2)
       \<and> (\<exists>awaited. invoked (snd (run_full_installation m1)) = invoked m1 @ awaited
                   \<and> invoked (snd (run_full_installation m2)) = invoked m2 @ awaited)
       \<and> (current_step m1 = current_step m2 \<longrightarrow>
            current_step (snd (run_full_installation m1)) = current_step (snd (run_full_installation m2)))
       \<and> (progress_callback m1 \<noteq> None \<and> progress_callback m2 \<noteq> None \<longrightarrow>
            (\<exists>evs. emitted (snd (run_full_installation m1)) = emitted m1 @ evs
                  \<and> emitted (snd (run_full_installation m2)) = emitted m2 @ evs))"
proof (intro impI)
  assume h: "quiet m1 \<and> quiet m2 \<and> steps m1 = steps m2"
  then have q1: "quiet m1" and q2: "quiet m2" and st: "steps m1 = steps m2" by simp_all
  note r1 = run_full_installation_quiet [OF q1]
  note r2 = run_full_installation_quiet [OF q2]
  have a: "fst (run_full_installation m1) = fst (run_full_installation m2)"
    using r1(1) r2(1) st by simp
  have b: "\<exists>awaited. invoked (snd (run_full_installation m1)) = invoked m1 @ awaited
                   \<and> invoked (snd (run_full_installation m2)) = invoked m2 @ awaited"
    using r1(2) r2(2) st by simp
  have c: "current_step m1 = current_step m2 \<longrightarrow>
            current_step (snd (run_full_installation m1)) = current_step (snd (run_full_installation m2))"
  proof (cases "steps m1 = []")
    case True
    with st run_steps_fields [of m1 "steps m1"] run_steps_fields [of m2 "steps m2"]
    show ?thesis by (simp add: run_full_installation_snd)
  next
    case False
    with st run_steps_current_quiet [OF q1, of "steps m1"] run_steps_current_quiet [OF q2, of "steps m2"]
    show ?thesis by (simp add: run_full_installation_snd)
  qed
  have d: "progress_callback m1 \<noteq> None \<and> progress_callback m2 \<noteq> None \<longrightarrow>
            (\<exists>evs. emitted (snd (run_full_installation m1)) = emitted m1 @ evs
                  \<and> emitted (snd (run_full_installation m2)) = emitted m2 @ evs)"
    using r1(3) r2(3) st by (auto simp: observed_def)
  from a b c d
  show "fst (run_full_installation m1) = fst (run_full_installation m2)
       \<and> (\<exists>awaited. invoked (snd (run_full_installation m1)) = invoked m1 @ awaited
                   \<and> invoked (snd (run_full_installation m2)) = invoked m2 @ awaited)
       \<and> (current_step m1 = current_step m2 \<longrightarrow>
            current_step (snd (run_full_installation m1)) = current_step (snd (run_full_installation m2)))
       \<and> (progress_callback m1 \<noteq> None \<and> progress_callback m2 \<noteq> None \<longrightarrow>
            (\<exists>evs. emitted (snd (run_full_installation m1)) = emitted m1 @ evs
                  \<and> emitted (snd (run_full_installation m2)) = emitted m2 @ evs))"
    by blast
qed

theorem progress_sink_noninterference_witness:
  "quiet (sample_manager steps_second_fails) \<and> quiet (silent_manager steps_second_fails)
   \<and> quiet (counting_manager steps_second_fails)
   \<and> fst (run_full_installation (sample_manager steps_second_fails))
       = fst (run_full_installation (silent_manager steps_second_fails))
   \<and> invoked (snd (run_full_installation (sample_manager steps_second_fails)))
       = invoked (snd (run_full_installation (silent_manager steps_second_fails)))
   \<and> current_step (snd (run_full_installation (sample_manager steps_second_fails)))
       = current_step (snd (run_full_installation (silent_manager steps_second_fails)))
   \<and> emitted (snd (run_full_installation (sample_manager steps_second_fails)))
       = emitted (snd (run_full_installation (counting_manager steps_second_fails)))"
proof -
  have q: "quiet (sample_manager steps_second_fails)" "quiet (silent_manager steps_second_fails)"
    "quiet (counting_manager steps_second_fails)"
    by (simp_all add: quiet_def sample_manager_def silent_manager_def counting_manager_def
        never_raises_def recorder_def counter_def)
  have f: "steps (sample_manager steps_second_fails) = steps (silent_manager steps_second_fails)"
    "steps (sample_manager steps_second_fails) = steps (counting_manager steps_second_fails)"
    "invoked (sample_manager steps_second_fails) = []" "invoked (silent_manager steps_second_fails) = []"
    "emitted (sample_manager steps_second_fails) = []" "emitted (counting_manager steps_second_fails) = []"
    "current_step (sample_manager steps_second_fails) = current_step (silent_manager steps_second_fails)"
    "progress_callback (sample_manager steps_second_fails) \<noteq> None"
    "progress_callback (counting_manager steps_second_fails) \<noteq> None"
    by (simp_all add: sample_manager_def silent_manager_def counting_manager_def)
  from progress_sink_noninterference
    [of "sample_manager steps_second_fails" "silent_manager steps_second_fails"] q f
  have a: "fst (run_full_installation (sample_manager steps_second_fails))
       = fst (run_full_installation (silent_manager steps_second_fails))"
    and b: "invoked (snd (run_full_installation (sample_manager steps_second_fails)))
       = invoked (snd (run_full_installation (silent_manager steps_second_fails)))"
    and c: "current_step (snd (run_full_installation (sample_manager steps_second_fails)))
       = current_step (snd (run_full_installation (silent_manager steps_second_fails)))"
    by auto
  from progress_sink_noninterference
    [of "sample_manager steps_second_fails" "counting_manager steps_second_fails"] q f
  have d: "emitted (snd (run_full_installation (sample_manager steps_second_fails)))
       = emitted (snd (run_full_installation (counting_manager steps_second_fails)))"
    by auto
  from q a b c d show ?thesis by blast
qed

end
